theory Spec2Isabelle
  imports Complex_Main "HOL-Library.Monad_Syntax"
begin

section \<open>JavaScript values\<close>

text \<open>
  The values that reach \<^verbatim>\<open>src/src/App.js\<close> from the recognition service are parsed JSON,
  so they are dynamically typed. \<open>jsval\<close> is the universe of those values, together with
  \<open>undefined\<close> (an absent property), \<open>NaN\<close> and the two infinities (results of
  arithmetic, and of parsing a literal such as \<open>1e999\<close>). A number is a double, given
  by its exact value; the two zeros of a double are not told apart, as no text that the
  program builds tells them apart. An object is the association list of its own
  properties.
\<close>

datatype jsval =
    JUndefined
  | JNull
  | JBool bool
  | JNum rat
  | JInf bool
  | JNaN
  | JStr string
  | JArr "jsval list"
  | JObj "(string \<times> jsval) list"

text \<open>\<open>Boolean(v)\<close>, the truthiness that \<open>!v\<close>, \<open>if (v)\<close> and \<open>filter(Boolean)\<close> test.\<close>

fun truthy :: "jsval \<Rightarrow> bool" where
  "truthy JUndefined = False"
| "truthy JNull = False"
| "truthy (JBool b) = b"
| "truthy (JNum r) = (r \<noteq> 0)"
| "truthy (JInf b) = True"
| "truthy JNaN = False"
| "truthy (JStr s) = (s \<noteq> [])"
| "truthy (JArr xs) = True"
| "truthy (JObj kvs) = True"

text \<open>
  \<open>v.k\<close>: reading a property of \<open>undefined\<close> or \<open>null\<close> throws a TypeError, which is
  \<open>None\<close> here. The keys the program reads (\<open>data\<close>, \<open>bbox\<close>, \<open>id\<close>, \<open>entity\<close>,
  \<open>label\<close>, \<open>status_code\<close>, \<open>distance\<close>, \<open>x_min\<close>, ...) are defined on no prototype,
  so on a primitive or an array they read as \<open>undefined\<close>.
\<close>

fun get :: "jsval \<Rightarrow> string \<Rightarrow> jsval option" where
  "get JUndefined k = None"
| "get JNull k = None"
| "get (JObj kvs) k = Some (case map_of kvs k of None \<Rightarrow> JUndefined | Some v \<Rightarrow> v)"
| "get v k = Some JUndefined"

text \<open>\<open>v?.k\<close>: optional chaining gives \<open>undefined\<close> where \<open>v.k\<close> would throw.\<close>

definition opt_prop :: "jsval \<Rightarrow> string \<Rightarrow> jsval" where
  "opt_prop v k = (case get v k of None \<Rightarrow> JUndefined | Some x \<Rightarrow> x)"

text \<open>\<open>a ?? b\<close> takes \<open>b\<close> exactly when \<open>a\<close> is \<open>undefined\<close> or \<open>null\<close>.\<close>

definition nullish :: "jsval \<Rightarrow> bool" where
  "nullish v = (v = JUndefined \<or> v = JNull)"

subsection \<open>Doubles\<close>

text \<open>
  The arithmetic operators of the language give the double nearest to the exact
  result, a tie going to the even mantissa (IEEE 754 binary64). \<open>bit_length n\<close> is the
  number of binary digits of \<open>n\<close>, and \<open>ilog2 x\<close> is the exponent \<open>e\<close> with
  \<open>2^e \<le> x < 2^(e+1)\<close>, for \<open>x > 0\<close>.
\<close>

fun bit_length :: "nat \<Rightarrow> nat" where
  "bit_length n = (if n = 0 then 0 else Suc (bit_length (n div 2)))"

declare bit_length.simps [simp del]

definition ilog2 :: "rat \<Rightarrow> int" where
  "ilog2 x =
     (if 1 \<le> x then int (bit_length (nat \<lfloor>x\<rfloor>)) - 1
      else - int (bit_length (nat (\<lceil>1 / x\<rceil> - 1))))"

text \<open>The integer nearest to \<open>y\<close>, the even one of two that are equally near.\<close>

definition round_even :: "rat \<Rightarrow> int" where
  "round_even y =
     (let f = \<lfloor>y\<rfloor>; d = y - of_int f
      in if d < 1 / 2 then f else if 1 / 2 < d then f + 1 else if even f then f else f + 1)"

text \<open>
  \<open>double x\<close>: the mantissa has 53 bits, the least exponent is -1022 (below it the
  doubles are evenly spaced by \<open>2^-1074\<close>), and a result that rounds to \<open>2^1024\<close> or more
  is an infinity.
\<close>

definition double :: "rat \<Rightarrow> jsval" where
  "double x =
     (if x = 0 then JNum 0
      else
        let e = max (ilog2 \<bar>x\<bar>) (- 1022);
            q = 2 powi (e - 52);
            r = of_int (round_even (\<bar>x\<bar> / q)) * q
        in if 2 powi 1024 \<le> r then JInf (0 < x) else JNum (sgn x * r))"

subsection \<open>Conversions\<close>

text \<open>
  \<open>ToPrimitive\<close> on a parsed JSON value. A primitive converts to itself. An object
  is asked for \<open>valueOf\<close> and \<open>toString\<close>: a property parsed from JSON is never a
  function, the inherited \<open>valueOf\<close> returns the object itself, and the inherited
  \<open>toString\<close> returns a string; so an object converts exactly when it has no property
  \<open>toString\<close> of its own, and otherwise the conversion throws a TypeError. An array
  converts through \<open>join\<close>, which converts its elements.
\<close>

fun convertible :: "jsval \<Rightarrow> bool" where
  "convertible (JObj kvs) = (map_of kvs ''toString'' = None)"
| "convertible (JArr xs) = list_all convertible xs"
| "convertible v = True"

text \<open>The values that are numbers.\<close>

fun number :: "jsval \<Rightarrow> jsval" where
  "number (JNum r) = JNum r"
| "number (JInf b) = JInf b"
| "number v = JNaN"

text \<open>
  \<open>ToNumber\<close>, the conversion the operators \<open>-\<close>, \<open>/\<close> and \<open>*\<close> apply to their operands;
  \<open>None\<close> is the TypeError of a value that does not convert. The number that is read
  in the text of a string or of an array is not modelled: it is the parameter \<open>conv\<close>.
  The text of an object is \<open>[object Object]\<close>, which reads as \<open>NaN\<close>.
\<close>

fun ToNumber :: "(jsval \<Rightarrow> jsval) \<Rightarrow> jsval \<Rightarrow> jsval option" where
  "ToNumber conv JUndefined = Some JNaN"
| "ToNumber conv JNull = Some (JNum 0)"
| "ToNumber conv (JBool b) = Some (JNum (if b then 1 else 0))"
| "ToNumber conv (JNum r) = Some (JNum r)"
| "ToNumber conv (JInf b) = Some (JInf b)"
| "ToNumber conv JNaN = Some JNaN"
| "ToNumber conv (JStr s) = Some (number (conv (JStr s)))"
| "ToNumber conv (JArr xs) =
     (if convertible (JArr xs) then Some (number (conv (JArr xs))) else None)"
| "ToNumber conv (JObj kvs) = (if convertible (JObj kvs) then Some JNaN else None)"

text \<open>\<open>x - y\<close> on numbers.\<close>

fun fsub :: "jsval \<Rightarrow> jsval \<Rightarrow> jsval" where
  "fsub (JNum x) (JNum y) = double (x - y)"
| "fsub (JNum x) (JInf q) = JInf (\<not> q)"
| "fsub (JInf p) (JNum y) = JInf p"
| "fsub (JInf p) (JInf q) = (if p = q then JNaN else JInf p)"
| "fsub x y = JNaN"

text \<open>\<open>x / n\<close> for a number \<open>x\<close> and a dimension \<open>n\<close> of the video, a natural number.\<close>

fun fdiv :: "jsval \<Rightarrow> nat \<Rightarrow> jsval" where
  "fdiv (JNum x) n =
     (if n = 0 then (if x = 0 then JNaN else JInf (0 < x)) else double (x / of_nat n))"
| "fdiv (JInf p) n = JInf p"
| "fdiv x n = JNaN"

text \<open>\<open>x * 100\<close> on a number.\<close>

fun fmul100 :: "jsval \<Rightarrow> jsval" where
  "fmul100 (JNum x) = double (x * 100)"
| "fmul100 (JInf p) = JInf p"
| "fmul100 x = JNaN"

text \<open>\<open>a - b\<close> on any two values: both are converted, then subtracted.\<close>

definition js_minus :: "(jsval \<Rightarrow> jsval) \<Rightarrow> jsval \<Rightarrow> jsval \<Rightarrow> jsval option" where
  "js_minus conv a b =
     do {
       x \<leftarrow> ToNumber conv a;
       y \<leftarrow> ToNumber conv b;
       Some (fsub x y)
     }"

text \<open>\<open>(a / n) * 100\<close> for a value \<open>a\<close> and a dimension \<open>n\<close> of the video.\<close>

definition percent :: "(jsval \<Rightarrow> jsval) \<Rightarrow> jsval \<Rightarrow> nat \<Rightarrow> jsval option" where
  "percent conv a n =
     do {
       x \<leftarrow> ToNumber conv a;
       Some (fmul100 (fdiv x n))
     }"

subsection \<open>Template literals\<close>

text \<open>
  A template literal is kept as its parts, the literal text and the interpolated
  values, in order: \<^verbatim>\<open>`${a}-${b}`\<close> is \<open>[Val a, Lit ''-'', Val b]\<close>. Evaluating it
  converts every interpolated value to a string, which throws for a value that does
  not convert: \<open>interpolate\<close> is \<open>None\<close> then.
\<close>

datatype part = Lit string | Val jsval

type_synonym template = "part list"

fun part_converts :: "part \<Rightarrow> bool" where
  "part_converts (Lit s) = True"
| "part_converts (Val v) = convertible v"

definition interpolate :: "part list \<Rightarrow> template option" where
  "interpolate ps = (if list_all part_converts ps then Some ps else None)"

fun digit :: "nat \<Rightarrow> char" where
  "digit n = ''0123456789'' ! n"

fun show_nat :: "nat \<Rightarrow> string" where
  "show_nat n = (if n < 10 then [digit n] else show_nat (n div 10) @ [digit (n mod 10)])"

declare show_nat.simps [simp del]

text \<open>
  \<open>ToString\<close> on the values whose text does not depend on the formatting of doubles:
  integers below \<open>10^21\<close> print as their decimal digits. \<open>None\<close> is a value outside
  this fragment (a fraction, an array, an object that does not convert).
\<close>

fun ToString :: "jsval \<Rightarrow> string option" where
  "ToString JUndefined = Some ''undefined''"
| "ToString JNull = Some ''null''"
| "ToString (JBool b) = Some (if b then ''true'' else ''false'')"
| "ToString (JNum r) =
     (if r = of_int \<lfloor>r\<rfloor> \<and> \<bar>r\<bar> < 10 ^ 21
      then Some ((if r < 0 then ''-'' else '''') @ show_nat (nat \<bar>\<lfloor>r\<rfloor>\<bar>))
      else None)"
| "ToString (JInf b) = Some (if b then ''Infinity'' else ''-Infinity'')"
| "ToString JNaN = Some ''NaN''"
| "ToString (JStr s) = Some s"
| "ToString (JArr xs) = None"
| "ToString (JObj kvs) = (if convertible (JObj kvs) then Some ''[object Object]'' else None)"

fun render_part :: "part \<Rightarrow> string option" where
  "render_part (Lit s) = Some s"
| "render_part (Val v) = ToString v"

definition render :: "template \<Rightarrow> string option" where
  "render t = map_option concat (those (map render_part t))"

section \<open>Presentation helpers\<close>

text \<open>
  \<^verbatim>\<open>const statusClasses = (code) => code === 200 ? '...emerald...' : '...sky...'\<close>
\<close>

definition emerald :: string where
  "emerald = ''border-emerald-500 bg-emerald-500/10 text-emerald-400''"

definition sky :: string where
  "sky = ''border-sky-500 bg-sky-500/10 text-sky-300''"

definition statusClasses :: "jsval \<Rightarrow> string" where
  "statusClasses code = (if code = JNum 200 then emerald else sky)"

section \<open>The overlay boxes\<close>

record dims =
  width :: nat
  height :: nat

record style =
  style_left :: template
  style_top :: template
  style_width :: template
  style_height :: template

text \<open>
  \<^verbatim>\<open>match.id ?? `${bounds.x_min}-${bounds.y_min}`\<close> is either the value the server
  sent or a string built by a template.
\<close>

datatype boxid = Given jsval | Derived template

record box =
  box_id :: boxid
  label :: jsval
  style :: style
  status_code :: jsval
  distance :: jsval

text \<open>
  The callback of \<open>matches.map\<close> in \<open>boxes\<close>. The outer \<open>None\<close> is a TypeError, thrown
  by a property read or by a conversion; \<open>Some None\<close> is the callback's \<open>return null\<close>.
  The template of the key is evaluated only when \<open>match.id\<close> is \<open>undefined\<close> or \<open>null\<close>.
\<close>

definition box_of :: "(jsval \<Rightarrow> jsval) \<Rightarrow> dims \<Rightarrow> jsval \<Rightarrow> box option option" where
  "box_of conv videoSize match =
     (let bounds = opt_prop match ''bbox'' in
      if truthy bounds then
        do {
          x_max \<leftarrow> get bounds ''x_max'';
          x_min \<leftarrow> get bounds ''x_min'';
          w \<leftarrow> js_minus conv x_max x_min;
          y_max \<leftarrow> get bounds ''y_max'';
          y_min \<leftarrow> get bounds ''y_min'';
          h \<leftarrow> js_minus conv y_max y_min;
          mid \<leftarrow> get match ''id'';
          key \<leftarrow> (if nullish mid
                  then map_option Derived (interpolate [Val x_min, Lit ''-'', Val y_min])
                  else Some (Given mid));
          l \<leftarrow> percent conv x_min (width videoSize);
          sl \<leftarrow> interpolate [Val l, Lit ''%''];
          t \<leftarrow> percent conv y_min (height videoSize);
          st \<leftarrow> interpolate [Val t, Lit ''%''];
          pw \<leftarrow> percent conv w (width videoSize);
          sw \<leftarrow> interpolate [Val pw, Lit ''%''];
          ph \<leftarrow> percent conv h (height videoSize);
          sh \<leftarrow> interpolate [Val ph, Lit ''%''];
          sc \<leftarrow> get match ''status_code'';
          d \<leftarrow> get match ''distance'';
          Some (Some \<lparr>
            box_id = key,
            label = opt_prop (opt_prop match ''entity'') ''label'',
            style = \<lparr>style_left = sl, style_top = st, style_width = sw, style_height = sh\<rparr>,
            status_code = sc,
            distance = d\<rparr>)
        }
      else Some None)"

text \<open>
  \<^verbatim>\<open>if (!videoSize.width || !videoSize.height) return []\<close>, then
  \<^verbatim>\<open>matches.map(...).filter(Boolean)\<close>. \<open>None\<close> is an exception out of the callback,
  which ends the whole \<open>map\<close>.
\<close>

definition boxes :: "(jsval \<Rightarrow> jsval) \<Rightarrow> dims \<Rightarrow> jsval list \<Rightarrow> box list option" where
  "boxes conv videoSize matches =
     (if width videoSize = 0 \<or> height videoSize = 0 then Some []
      else map_option (List.map_filter (\<lambda>b. b)) (those (map (box_of conv videoSize) matches)))"

text \<open>The key of an entry of the recognition log: \<^verbatim>\<open>key={match.id}\<close>.\<close>

definition log_key :: "jsval \<Rightarrow> jsval option" where
  "log_key match = get match ''id''"

section \<open>The frame encoder\<close>

definition POLL_DELAY_MS :: nat where
  "POLL_DELAY_MS = 350"

definition MAX_FRAME_WIDTH :: nat where
  "MAX_FRAME_WIDTH = 640"

definition MAX_FRAME_HEIGHT :: nat where
  "MAX_FRAME_HEIGHT = 640"

text \<open>\<open>Math.round\<close> rounds to the nearest integer, a half towards \<open>+\<infinity>\<close>.\<close>

definition Math_round :: "rat \<Rightarrow> int" where
  "Math_round x = \<lfloor>x + 1 / 2\<rfloor>"

text \<open>
  What \<open>captureFrame\<close> reads of its surroundings: whether \<open>videoRef.current\<close> and
  \<open>canvasRef.current\<close> are set, the native size of the video, and whether
  \<open>canvas.getContext('2d')\<close> gives a context.
\<close>

record camera =
  video_mounted :: bool
  canvas_mounted :: bool
  videoWidth :: nat
  videoHeight :: nat
  context_2d :: bool

text \<open>
  \<^verbatim>\<open>Math.min(1, MAX_FRAME_WIDTH / video.videoWidth, MAX_FRAME_HEIGHT / video.videoHeight)\<close>
\<close>

definition scale :: "nat \<Rightarrow> nat \<Rightarrow> rat" where
  "scale w h = min 1 (min (of_nat MAX_FRAME_WIDTH / of_nat w) (of_nat MAX_FRAME_HEIGHT / of_nat h))"

definition targetWidth :: "nat \<Rightarrow> nat \<Rightarrow> int" where
  "targetWidth w h = Math_round (of_nat w * scale w h)"

definition targetHeight :: "nat \<Rightarrow> nat \<Rightarrow> int" where
  "targetHeight w h = Math_round (of_nat h * scale w h)"

record error =
  name :: string
  message :: string

text \<open>\<open>new Error(m)\<close>\<close>

definition Error :: "string \<Rightarrow> error" where
  "Error m = \<lparr>name = ''Error'', message = m\<rparr>"

type_synonym blob = "nat list"

record frame = dims +
  blob :: blob

text \<open>
  The body of the promise of \<open>captureFrame\<close> up to the call of \<open>canvas.toBlob\<close>, which
  runs at once: the outcome (\<open>Inl\<close> a rejection) and the size of the canvas afterwards.
  The canvas is resized before the context is asked for.
\<close>

definition captureFrame_draw :: "camera \<Rightarrow> dims \<Rightarrow> (error + unit) \<times> dims" where
  "captureFrame_draw cam cv =
     (if \<not> video_mounted cam \<or> \<not> canvas_mounted cam
      then (Inl (Error ''Camera is not ready yet.''), cv)
      else if videoWidth cam = 0 \<or> videoHeight cam = 0
      then (Inl (Error ''Camera is warming up. Try again in a second.''), cv)
      else
        let cv' = \<lparr>width = nat (targetWidth (videoWidth cam) (videoHeight cam)),
                   height = nat (targetHeight (videoWidth cam) (videoHeight cam))\<rparr>
        in if \<not> context_2d cam then (Inl (Error ''Canvas context is unavailable.''), cv')
           else (Inr (), cv'))"

text \<open>
  The callback of \<open>canvas.toBlob\<close>, which runs later: it reads the size of the canvas
  as it is then.
\<close>

definition captureFrame_blob :: "blob option \<Rightarrow> dims \<Rightarrow> error + frame" where
  "captureFrame_blob b cv =
     (case b of
        None \<Rightarrow> Inl (Error ''Unable to capture frame'')
      | Some bl \<Rightarrow> Inr \<lparr>width = width cv, height = height cv, blob = bl\<rparr>)"


section \<open>The component and its poll loop\<close>

text \<open>The state of \<open>App\<close> held by \<open>useState\<close>. Times are milliseconds.\<close>

record app =
  streamReady :: bool
  isScanning :: bool
  isProcessing :: bool
  feedback :: string
  matches :: "jsval list"
  videoSize :: dims
  lastUpdated :: "rat option"
  latency :: "rat option"

text \<open>
  What is pending in the event loop of the browser. \<open>Capture l\<close>: the \<open>runLoop\<close> of
  effect \<open>l\<close> awaits the callback of \<open>toBlob\<close>. \<open>Fetch c l t\<close>: it awaits the request
  made under the AbortController \<open>c\<close> at time \<open>t\<close>. \<open>Timer h l d\<close>: the handle \<open>h\<close> of
  \<open>setTimeout(runLoop, d)\<close>.
\<close>

datatype task =
    Capture nat
  | Fetch nat nat rat
  | Timer nat nat nat

text \<open>
  The whole component: the React state \<open>ui\<close>, the refs \<open>loopRef\<close> and \<open>abortRef\<close>, the
  size of the hidden canvas, and the closures of the scanning effect. Every run of
  the effect with \<open>isScanning\<close> true makes a closure with its own variable
  \<open>cancelled\<close>; a closure is named by a number, \<open>cancelled\<close> lists the closures whose
  variable is true, and \<open>cleanup\<close> is the closure whose cleanup React will call next.
  \<open>fresh\<close> is the next unused handle and \<open>fetched\<close> counts the calls of \<open>fetch\<close>.
\<close>

record sys =
  ui :: app
  loopRef :: "nat option"
  abortRef :: "nat option"
  canvas :: dims
  cancelled :: "nat list"
  cleanup :: "nat option"
  tasks :: "task list"
  fresh :: nat
  fetched :: nat

definition setStreamReady :: "bool \<Rightarrow> sys \<Rightarrow> sys" where
  "setStreamReady v s = s\<lparr>ui := (ui s)\<lparr>streamReady := v\<rparr>\<rparr>"

definition setIsScanning :: "bool \<Rightarrow> sys \<Rightarrow> sys" where
  "setIsScanning v s = s\<lparr>ui := (ui s)\<lparr>isScanning := v\<rparr>\<rparr>"

definition setIsProcessing :: "bool \<Rightarrow> sys \<Rightarrow> sys" where
  "setIsProcessing v s = s\<lparr>ui := (ui s)\<lparr>isProcessing := v\<rparr>\<rparr>"

definition setFeedback :: "string \<Rightarrow> sys \<Rightarrow> sys" where
  "setFeedback v s = s\<lparr>ui := (ui s)\<lparr>feedback := v\<rparr>\<rparr>"

definition setMatches :: "jsval list \<Rightarrow> sys \<Rightarrow> sys" where
  "setMatches v s = s\<lparr>ui := (ui s)\<lparr>matches := v\<rparr>\<rparr>"

definition setVideoSize :: "dims \<Rightarrow> sys \<Rightarrow> sys" where
  "setVideoSize v s = s\<lparr>ui := (ui s)\<lparr>videoSize := v\<rparr>\<rparr>"

definition setLastUpdated :: "rat option \<Rightarrow> sys \<Rightarrow> sys" where
  "setLastUpdated v s = s\<lparr>ui := (ui s)\<lparr>lastUpdated := v\<rparr>\<rparr>"

definition setLatency :: "rat option \<Rightarrow> sys \<Rightarrow> sys" where
  "setLatency v s = s\<lparr>ui := (ui s)\<lparr>latency := v\<rparr>\<rparr>"

text \<open>The component as mounted: nothing pending and an empty canvas of the default size.\<close>

definition init :: sys where
  "init = \<lparr>
     ui = \<lparr>streamReady = False, isScanning = False, isProcessing = False, feedback = [],
           matches = [], videoSize = \<lparr>width = 0, height = 0\<rparr>, lastUpdated = None,
           latency = None\<rparr>,
     loopRef = None, abortRef = None, canvas = \<lparr>width = 300, height = 150\<rparr>,
     cancelled = [], cleanup = None, tasks = [], fresh = 1, fetched = 0\<rparr>"

subsection \<open>One cycle of \<open>runLoop\<close>\<close>

text \<open>
  \<^verbatim>\<open>finally { setIsProcessing(false); if (!cancelled && isScanning) loopRef.current = setTimeout(runLoop, POLL_DELAY_MS) }\<close>.
  \<open>runLoop\<close> exists only in a run of the effect whose \<open>isScanning\<close> is true, so the
  \<open>isScanning\<close> it closes over is true.
\<close>

definition finally_block :: "nat \<Rightarrow> sys \<Rightarrow> sys" where
  "finally_block l s =
     (let s1 = setIsProcessing False s in
      if l \<notin> set (cancelled s1)
      then s1\<lparr>loopRef := Some (fresh s1),
              tasks := tasks s1 @ [Timer (fresh s1) l POLL_DELAY_MS],
              fresh := Suc (fresh s1)\<rparr>
      else s1)"

text \<open>
  \<^verbatim>\<open>catch (error) { if (error?.name === 'AbortError') return; setFeedback(error?.message || 'Scan failed. Please try again.') }\<close>,
  followed by the \<open>finally\<close> block, which runs after the \<open>return\<close> as well.
\<close>

definition catch_block :: "error \<Rightarrow> nat \<Rightarrow> sys \<Rightarrow> sys" where
  "catch_block e l s =
     (if name e = ''AbortError'' then finally_block l s
      else finally_block l
             (setFeedback (if message e = [] then ''Scan failed. Please try again.''
                           else message e) s))"

text \<open>
  A call of \<open>runLoop\<close>, up to its first \<open>await\<close> that waits: the guard, the flag, and the
  part of \<open>captureFrame\<close> that runs at once. A promise rejected at once is caught in
  this same turn.
\<close>

definition runLoop :: "camera \<Rightarrow> nat \<Rightarrow> sys \<Rightarrow> sys" where
  "runLoop cam l s =
     (if l \<in> set (cancelled s) then s
      else
        let s1 = setIsProcessing True s in
        case captureFrame_draw cam (canvas s1) of
          (Inl e, cv) \<Rightarrow> catch_block e l (s1\<lparr>canvas := cv\<rparr>)
        | (Inr u, cv) \<Rightarrow> s1\<lparr>canvas := cv, tasks := tasks s1 @ [Capture l]\<rparr>)"

text \<open>
  The continuation after \<open>await captureFrame()\<close>, run when \<open>toBlob\<close> calls back at time
  \<open>now\<close>: the video size is set, a new AbortController is stored in \<open>abortRef\<close> and the
  request is sent. \<open>cancelled\<close> is not read here.
\<close>

definition runLoop_captured :: "rat \<Rightarrow> blob option \<Rightarrow> nat \<Rightarrow> sys \<Rightarrow> sys" where
  "runLoop_captured now b l s =
     (case captureFrame_blob b (canvas s) of
        Inl e \<Rightarrow> catch_block e l s
      | Inr fr \<Rightarrow>
          let s1 = setVideoSize \<lparr>width = width fr, height = height fr\<rparr> s;
              c = fresh s1
          in s1\<lparr>abortRef := Some c,
                tasks := tasks s1 @ [Fetch c l now],
                fresh := Suc c,
                fetched := Suc (fetched s1)\<rparr>)"

text \<open>
  How a request ends when it is not aborted: \<open>Rejected m\<close> is a network failure (a
  TypeError with message \<open>m\<close>); \<open>Fulfilled status body\<close> is a response, whose
  \<open>response.json()\<close> gives \<open>Inr payload\<close> or fails with a SyntaxError \<open>Inl m\<close>.
\<close>

datatype settled = Fulfilled nat "string + jsval" | Rejected string

text \<open>\<open>response.ok\<close>\<close>

definition ok :: "nat \<Rightarrow> bool" where
  "ok status = (200 \<le> status \<and> status \<le> 299)"

definition Array_isArray :: "jsval \<Rightarrow> bool" where
  "Array_isArray v = (case v of JArr xs \<Rightarrow> True | _ \<Rightarrow> False)"

text \<open>\<^verbatim>\<open>Array.isArray(payload?.data) ? payload.data : []\<close>\<close>

definition detections :: "jsval \<Rightarrow> jsval list" where
  "detections payload =
     (if Array_isArray (opt_prop payload ''data'')
      then (case opt_prop payload ''data'' of JArr xs \<Rightarrow> xs | _ \<Rightarrow> [])
      else [])"

text \<open>
  The continuation after \<open>await fetch(...)\<close> and \<open>await response.json()\<close>, run at time
  \<open>now\<close> for the request started at \<open>startTime\<close>. The two awaits are taken as one:
  the response arrives with its body, and an abort before that rejects whichever of
  the two is waiting with the same AbortError.
\<close>

definition runLoop_settled :: "rat \<Rightarrow> settled \<Rightarrow> rat \<Rightarrow> nat \<Rightarrow> sys \<Rightarrow> sys" where
  "runLoop_settled now r startTime l s =
     (case r of
        Rejected m \<Rightarrow> catch_block \<lparr>name = ''TypeError'', message = m\<rparr> l s
      | Fulfilled status body \<Rightarrow>
          if \<not> ok status
          then catch_block (Error (''Recognition request failed with '' @ show_nat status)) l s
          else
            (case body of
               Inl m \<Rightarrow> catch_block \<lparr>name = ''SyntaxError'', message = m\<rparr> l s
             | Inr payload \<Rightarrow>
                 finally_block l
                   (setFeedback []
                     (setLastUpdated (Some now)
                       (setLatency (Some (now - startTime))
                         (setMatches (detections payload) s))))))"

subsection \<open>Handles: timers and requests\<close>

fun is_fetch :: "nat \<Rightarrow> task \<Rightarrow> bool" where
  "is_fetch c (Fetch c' l t) = (c' = c)"
| "is_fetch c x = False"

fun is_timer :: "nat \<Rightarrow> task \<Rightarrow> bool" where
  "is_timer h (Timer h' l d) = (h' = h)"
| "is_timer h x = False"

text \<open>The closure and the start time of the request pending under controller \<open>c\<close>.\<close>

fun fetch_task :: "nat \<Rightarrow> task list \<Rightarrow> (nat \<times> rat) option" where
  "fetch_task c [] = None"
| "fetch_task c (Fetch c' l t # ts) = (if c' = c then Some (l, t) else fetch_task c ts)"
| "fetch_task c (x # ts) = fetch_task c ts"

text \<open>The closure whose \<open>runLoop\<close> the pending timer \<open>h\<close> will call.\<close>

fun timer_task :: "nat \<Rightarrow> task list \<Rightarrow> nat option" where
  "timer_task h [] = None"
| "timer_task h (Timer h' l d # ts) = (if h' = h then Some l else timer_task h ts)"
| "timer_task h (x # ts) = timer_task h ts"

text \<open>The controllers of the requests that are in flight, oldest first.\<close>

fun outstanding :: "task list \<Rightarrow> nat list" where
  "outstanding [] = []"
| "outstanding (Fetch c l t # ts) = c # outstanding ts"
| "outstanding (x # ts) = outstanding ts"

text \<open>The handles of the timers that have not fired.\<close>

fun timers :: "task list \<Rightarrow> nat list" where
  "timers [] = []"
| "timers (Timer h l d # ts) = h # timers ts"
| "timers (x # ts) = timers ts"

definition clearTimeout :: "nat \<Rightarrow> sys \<Rightarrow> sys" where
  "clearTimeout h s = s\<lparr>tasks := filter (\<lambda>x. \<not> is_timer h x) (tasks s)\<rparr>"

text \<open>
  \<open>controller.abort()\<close>: a request in flight under the controller is taken off the
  network, and the \<open>await\<close> of the closure that made it will reject with an AbortError;
  the closure is returned. Aborting a settled request does nothing.
\<close>

definition abort :: "nat \<Rightarrow> sys \<Rightarrow> sys \<times> nat option" where
  "abort c s =
     (case fetch_task c (tasks s) of
        None \<Rightarrow> (s, None)
      | Some (l, t) \<Rightarrow> (s\<lparr>tasks := filter (\<lambda>x. \<not> is_fetch c x) (tasks s)\<rparr>, Some l))"

definition AbortError :: error where
  "AbortError = \<lparr>name = ''AbortError'', message = ''The user aborted a request.''\<rparr>"

text \<open>
  The rejection of an aborted request reaches \<open>runLoop\<close> as a microtask, after the
  code that called \<open>abort\<close> has returned and before any other event.
\<close>

definition cancelled_outcome :: "nat option \<Rightarrow> sys \<Rightarrow> sys" where
  "cancelled_outcome a s = (case a of None \<Rightarrow> s | Some l \<Rightarrow> catch_block AbortError l s)"

subsection \<open>The scanning effect\<close>

text \<open>
  The cleanup returned by a run of the effect with \<open>isScanning\<close> true, for its closure
  \<open>l\<close>: \<^verbatim>\<open>cancelled = true; if (loopRef.current) { clearTimeout(loopRef.current); loopRef.current = null }; abortRef.current?.abort(); abortRef.current = null\<close>.
  Timer handles are positive, so a stored handle is truthy.
\<close>

definition effect_cleanup :: "nat \<Rightarrow> sys \<Rightarrow> sys \<times> nat option" where
  "effect_cleanup l s =
     (let s1 = s\<lparr>cancelled := l # cancelled s\<rparr>;
          s2 = (case loopRef s1 of
                  None \<Rightarrow> s1
                | Some h \<Rightarrow> (clearTimeout h s1)\<lparr>loopRef := None\<rparr>);
          (s3, a) = (case abortRef s2 of None \<Rightarrow> (s2, None) | Some c \<Rightarrow> abort c s2)
      in (s3\<lparr>abortRef := None\<rparr>, a))"

text \<open>
  The body of the effect when \<open>isScanning\<close> is false:
  \<^verbatim>\<open>if (loopRef.current) {...}; abortRef.current?.abort(); abortRef.current = null; setIsProcessing(false); return\<close>.
  It returns no cleanup.
\<close>

definition effect_idle :: "sys \<Rightarrow> sys \<times> nat option" where
  "effect_idle s =
     (let s2 = (case loopRef s of
                  None \<Rightarrow> s
                | Some h \<Rightarrow> (clearTimeout h s)\<lparr>loopRef := None\<rparr>);
          (s3, a) = (case abortRef s2 of None \<Rightarrow> (s2, None) | Some c \<Rightarrow> abort c s2)
      in ((setIsProcessing False (s3\<lparr>abortRef := None\<rparr>))\<lparr>cleanup := None\<rparr>, a))"

text \<open>
  The body of the effect when \<open>isScanning\<close> is true: a new closure with
  \<open>cancelled = false\<close>, the first call of \<open>runLoop\<close>, and its cleanup for React.
\<close>

definition effect_running :: "camera \<Rightarrow> sys \<Rightarrow> sys" where
  "effect_running cam s =
     (let l = fresh s in runLoop cam l (s\<lparr>fresh := Suc l, cleanup := Some l\<rparr>))"

text \<open>
  What React does when \<open>isScanning\<close> has changed: the cleanup of the last run, the body
  of the new run, and then the microtasks of the requests that were aborted.
\<close>

definition effect_isScanning :: "camera \<Rightarrow> sys \<Rightarrow> sys" where
  "effect_isScanning cam s =
     (let (s1, a1) = (case cleanup s of None \<Rightarrow> (s, None) | Some l \<Rightarrow> effect_cleanup l s)
      in if isScanning (ui s1) then cancelled_outcome a1 (effect_running cam s1)
         else let (s2, a2) = effect_idle s1
              in cancelled_outcome a2 (cancelled_outcome a1 s2))"

text \<open>
  \<open>toggleScanning\<close>, the handler of the button. \<open>api\<close> is the constant \<open>API_URL\<close>, read
  from the environment of the build: \<open>None\<close> when the variable is not set.
\<close>

definition toggleScanning :: "string option \<Rightarrow> sys \<Rightarrow> sys" where
  "toggleScanning api s =
     (if api = None \<or> api = Some []
      then setFeedback ''Missing VITE_RECOGNITION_API_URL in your .env file.'' s
      else if \<not> streamReady (ui s) then setFeedback ''Camera is not ready yet.'' s
      else setIsScanning (\<not> isScanning (ui s)) (setFeedback [] s))"

text \<open>
  A click on the button: the handler, then the effect if \<open>isScanning\<close> changed. React
  renders and runs the effect in the turn of the click, before any other event.
\<close>

definition click :: "string option \<Rightarrow> camera \<Rightarrow> sys \<Rightarrow> sys" where
  "click api cam s =
     (let s1 = toggleScanning api s in
      if isScanning (ui s1) = isScanning (ui s) then s1 else effect_isScanning cam s1)"

subsection \<open>Events\<close>

text \<open>
  What can happen to the mounted component: a click on the button, the callback of
  \<open>toBlob\<close> for closure \<open>l\<close>, the end of the request under controller \<open>c\<close>, the firing
  of timer \<open>h\<close>, the answer of \<open>getUserMedia\<close>, and \<open>loadedmetadata\<close> on the video.
  An event for a handle that is not pending is ignored.
\<close>

datatype event =
    Click
  | ToBlob nat "blob option"
  | Settle nat settled
  | Timeout nat
  | CameraGranted
  | CameraDenied string
  | LoadedMetadata

definition step :: "string option \<Rightarrow> camera \<Rightarrow> rat \<Rightarrow> event \<Rightarrow> sys \<Rightarrow> sys" where
  "step api cam now ev s =
     (case ev of
        Click \<Rightarrow> click api cam s
      | ToBlob l b \<Rightarrow>
          if Capture l \<in> set (tasks s)
          then runLoop_captured now b l (s\<lparr>tasks := remove1 (Capture l) (tasks s)\<rparr>)
          else s
      | Settle c r \<Rightarrow>
          (case fetch_task c (tasks s) of
             None \<Rightarrow> s
           | Some (l, t) \<Rightarrow>
               runLoop_settled now r t l
                 (s\<lparr>tasks := filter (\<lambda>x. \<not> is_fetch c x) (tasks s)\<rparr>))
      | Timeout h \<Rightarrow>
          (case timer_task h (tasks s) of
             None \<Rightarrow> s
           | Some l \<Rightarrow> runLoop cam l (s\<lparr>tasks := filter (\<lambda>x. \<not> is_timer h x) (tasks s)\<rparr>))
      | CameraGranted \<Rightarrow> setStreamReady True s
      | CameraDenied m \<Rightarrow>
          setFeedback (if m = [] then ''Unable to access camera. Please allow camera permissions.''
                       else m) s
      | LoadedMetadata \<Rightarrow>
          if videoWidth cam = 0 \<or> videoHeight cam = 0 then s
          else setVideoSize \<lparr>width = videoWidth cam, height = videoHeight cam\<rparr> s)"

text \<open>A run: the events in order, each with the time at which it happens.\<close>

fun run :: "string option \<Rightarrow> camera \<Rightarrow> (rat \<times> event) list \<Rightarrow> sys \<Rightarrow> sys" where
  "run api cam [] s = s"
| "run api cam ((now, ev) # evs) s = run api cam evs (step api cam now ev s)"

subsection \<open>Whose task is pending\<close>

text \<open>The closure that a pending task will resume.\<close>

fun owner :: "task \<Rightarrow> nat" where
  "owner (Capture l) = l"
| "owner (Fetch c l t) = l"
| "owner (Timer h l d) = l"

text \<open>
  Every pending task belongs to a closure that is cancelled or to the closure whose
  cleanup is mounted.
\<close>

definition owned :: "sys \<Rightarrow> bool" where
  "owned s = list_all (\<lambda>x. owner x \<in> set (cancelled s) \<or> cleanup s = Some (owner x)) (tasks s)"

text \<open>
  What holds of the component after any events (\<open>consistent_run\<close> below): the tasks are
  owned, and a cleanup is mounted exactly while \<open>isScanning\<close> is true.
\<close>

definition consistent :: "sys \<Rightarrow> bool" where
  "consistent s = (owned s \<and> isScanning (ui s) = (cleanup s \<noteq> None))"

section \<open>Example inputs\<close>

text \<open>
  One detection as the service sends it, with a box and no \<open>id\<close>:
  \<^verbatim>\<open>{bbox: {x_min: 64, y_min: 48, x_max: 192, y_max: 144}, status_code: 200}\<close>.
\<close>

definition scenario_A :: jsval where
  "scenario_A =
     JObj [(''bbox'', JObj [(''x_min'', JNum 64), (''y_min'', JNum 48),
                            (''x_max'', JNum 192), (''y_max'', JNum 144)]),
           (''status_code'', JNum 200)]"

text \<open>A conversion that reads no string, array or object as a number.\<close>

definition no_conv :: "jsval \<Rightarrow> jsval" where
  "no_conv v = JNaN"

text \<open>A camera that is ready, with a 1280 by 720 video.\<close>

definition cam_hd :: camera where
  "cam_hd = \<lparr>video_mounted = True, canvas_mounted = True, videoWidth = 1280,
             videoHeight = 720, context_2d = True\<rparr>"

text \<open>A configured endpoint.\<close>

definition api_url :: "string option" where
  "api_url = Some ''http://localhost:8000/recognize''"

text \<open>
  The component while the first request is in flight: the camera is granted, the
  button is clicked, and \<open>toBlob\<close> has called back.
\<close>

definition in_flight :: sys where
  "in_flight = run api_url cam_hd [(0, CameraGranted), (10, Click), (15, ToBlob 1 (Some [7]))] init"

text \<open>
  Scanning is stopped while the first frame is being encoded and started again while
  the request of that frame is in flight.
\<close>

definition race :: "(rat \<times> event) list" where
  "race = [(0, CameraGranted), (10, Click), (12, Click), (15, ToBlob 1 (Some [7])),
           (100, Click), (105, ToBlob 3 (Some [8]))]"

text \<open>Two answers of the service.\<close>

definition newer :: jsval where
  "newer = JObj [(''data'', JArr [JObj [(''id'', JStr ''newer'')]])]"

definition older :: jsval where
  "older = JObj [(''data'', JArr [JObj [(''id'', JStr ''older'')]])]"

section \<open>Properties\<close>

subsection \<open>Status styling\<close>

text \<open>
  C10. The styling of a detection depends on its \<open>status_code\<close> alone and has two
  outcomes: the emerald classes exactly when the code is the number 200, the sky
  classes for every other value, an absent (\<open>undefined\<close>) or \<open>null\<close> code and the
  string \<open>"200"\<close> included. The number 200 is written in \<open>statusClasses\<close> itself.
\<close>

theorem statusClasses_strict_200:
  "(statusClasses code = emerald \<longleftrightarrow> code = JNum 200)
   \<and> (statusClasses code = sky \<longleftrightarrow> code \<noteq> JNum 200)
   \<and> emerald \<noteq> sky
   \<and> statusClasses JUndefined = sky
   \<and> statusClasses JNull = sky
   \<and> statusClasses (JStr ''200'') = sky
   \<and> statusClasses (JNum 200) = emerald"
  by (simp add: statusClasses_def emerald_def sky_def)


subsection \<open>Doubles\<close>

text \<open>
  \<open>ilog2\<close> is the exponent, so \<open>double\<close> is found by giving the exponent and the mantissa
  (\<open>double_eval\<close>); away from the subnormal numbers and from overflow, \<open>double x\<close> is
  within half a unit in the last place of \<open>x\<close> (\<open>double_near\<close>).
\<close>

lemma bit_length_bounds: "0 < n \<Longrightarrow> 2 ^ (bit_length n - 1) \<le> n \<and> n < 2 ^ bit_length n"
proof (induction n rule: bit_length.induct)
  case (1 n)
  show ?case
  proof (cases "n div 2 = 0")
    case True
    with "1.prems" have "n = 1" by presburger
    then show ?thesis by (simp add: bit_length.simps [of "Suc 0"] bit_length.simps [of 0])
  next
    case False
    then have ih: "2 ^ (bit_length (n div 2) - 1) \<le> n div 2" "n div 2 < 2 ^ bit_length (n div 2)"
      using "1.IH" "1.prems" by simp_all
    from False have p: "0 < bit_length (n div 2)"
      by (simp add: bit_length.simps [of "n div 2"])
    have b: "bit_length n = Suc (bit_length (n div 2))"
      using "1.prems" by (simp add: bit_length.simps [of n])
    have "2 ^ (bit_length n - 1) = 2 * 2 ^ (bit_length (n div 2) - 1)"
      using p by (simp add: b flip: power_Suc)
    also have "\<dots> \<le> 2 * (n div 2)" using ih(1) by simp
    also have "\<dots> \<le> n" by simp
    finally have lo: "2 ^ (bit_length n - 1) \<le> n" .
    have "n < 2 * (n div 2) + 2" by presburger
    also have "\<dots> \<le> 2 * 2 ^ bit_length (n div 2)" using ih(2) by simp
    finally have "n < 2 ^ bit_length n" by (simp add: b)
    with lo show ?thesis by simp
  qed
qed

lemma ilog2_bounds:
  assumes "0 < x"
  shows "2 powi ilog2 x \<le> x \<and> x < 2 powi (ilog2 x + 1)"
proof (cases "1 \<le> x")
  case True
  let ?n = "nat \<lfloor>x\<rfloor>"
  from True have n: "0 < ?n" by simp
  from bit_length_bounds [OF n] have b: "2 ^ (bit_length ?n - 1) \<le> ?n" "?n < 2 ^ bit_length ?n"
    by simp_all
  from n have pos: "0 < bit_length ?n"
    by (simp add: bit_length.simps [of ?n])
  have e: "ilog2 x = int (bit_length ?n - 1)"
    using True pos by (simp add: ilog2_def)
  have "(2::rat) ^ (bit_length ?n - 1) = of_nat (2 ^ (bit_length ?n - 1))" by simp
  also have "\<dots> \<le> of_nat ?n" using b(1) by (simp only: of_nat_le_iff)
  also have "\<dots> \<le> x" using True by (simp add: of_nat_nat)
  finally have lo: "2 powi ilog2 x \<le> x" by (simp add: e)
  have "Suc ?n \<le> 2 ^ bit_length ?n" using b(2) by (rule Suc_leI)
  then have s: "(of_nat (Suc ?n) :: rat) \<le> of_nat (2 ^ bit_length ?n)"
    by (simp only: of_nat_le_iff)
  have "x < of_nat (Suc ?n)" using True by (simp add: of_nat_nat) linarith
  also note s
  also have "(of_nat (2 ^ bit_length ?n) :: rat) = 2 ^ bit_length ?n" by simp
  finally have "x < 2 ^ bit_length ?n" .
  moreover have "ilog2 x + 1 = int (bit_length ?n)" using e pos by simp
  ultimately have "x < 2 powi (ilog2 x + 1)" by simp
  with lo show ?thesis by simp
next
  case False
  let ?y = "1 / x"
  let ?n = "nat (\<lceil>?y\<rceil> - 1)"
  let ?k = "bit_length ?n"
  from False assms have y: "1 < ?y" by simp
  then have c: "2 \<le> \<lceil>?y\<rceil>" by linarith
  then have n: "0 < ?n" by simp
  from bit_length_bounds [OF n] have b: "2 ^ (?k - 1) \<le> ?n" "?n < 2 ^ ?k"
    by simp_all
  from n have pos: "0 < ?k" by (simp add: bit_length.simps [of ?n])
  have e: "ilog2 x = - int ?k" using False by (simp add: ilog2_def)
  have "Suc ?n \<le> 2 ^ ?k" using b(2) by (rule Suc_leI)
  then have s: "(of_nat (Suc ?n) :: rat) \<le> of_nat (2 ^ ?k)" by (simp only: of_nat_le_iff)
  have "?y \<le> of_nat (Suc ?n)" using c by (simp add: of_nat_nat) linarith
  also note s
  also have "(of_nat (2 ^ ?k) :: rat) = 2 ^ ?k" by simp
  finally have "?y \<le> 2 ^ ?k" .
  then have "1 \<le> 2 ^ ?k * x" using assms by (simp add: field_simps)
  then have lo: "2 powi ilog2 x \<le> x"
    by (simp add: e power_int_minus field_simps)
  have "(2::rat) ^ (?k - 1) = of_nat (2 ^ (?k - 1))" by simp
  also have "\<dots> \<le> of_nat ?n" using b(1) by (simp only: of_nat_le_iff)
  also have "of_nat ?n < ?y" using c by (simp add: of_nat_nat) linarith
  finally have "2 ^ (?k - 1) < ?y" .
  then have "2 ^ (?k - 1) * x < 1" using assms by (simp add: field_simps)
  moreover have "ilog2 x + 1 = - int (?k - 1)" using e pos by simp
  ultimately have "x < 2 powi (ilog2 x + 1)"
    by (simp add: power_int_minus field_simps)
  with lo show ?thesis by simp
qed

lemma ilog2_unique:
  assumes "2 powi e \<le> x" and "x < 2 powi (e + 1)"
  shows "ilog2 x = e"
proof -
  have x: "0 < x" using assms(1) by (rule less_le_trans [rotated]) simp
  note b = ilog2_bounds [OF x]
  have "(2::rat) powi e < 2 powi (ilog2 x + 1)" using assms(1) b by linarith
  then have 1: "e < ilog2 x + 1"
    using power_int_increasing [of "ilog2 x + 1" e "2::rat"] by fastforce
  have "(2::rat) powi ilog2 x < 2 powi (e + 1)" using assms(2) b by linarith
  then have 2: "ilog2 x < e + 1"
    using power_int_increasing [of "e + 1" "ilog2 x" "2::rat"] by fastforce
  from 1 2 show ?thesis by simp
qed


lemma round_even_near: "\<bar>y - of_int m\<bar> < 1 / 2 \<Longrightarrow> round_even y = m"
proof -
  assume a: "\<bar>y - of_int m\<bar> < 1 / 2"
  consider "\<lfloor>y\<rfloor> = m" | "\<lfloor>y\<rfloor> = m - 1" using a by linarith
  then show ?thesis
  proof cases
    case 1
    with a have "y - of_int \<lfloor>y\<rfloor> < 1 / 2" by linarith
    with 1 show ?thesis by (simp add: round_even_def Let_def)
  next
    case 2
    then have "of_int \<lfloor>y\<rfloor> = (of_int m :: rat) - 1" by simp
    with a have "1 / 2 < y - of_int \<lfloor>y\<rfloor>" by linarith
    with 2 show ?thesis by (simp add: round_even_def Let_def)
  qed
qed

lemma round_even_bound: "\<bar>of_int (round_even y) - y\<bar> \<le> 1 / 2"
proof -
  have f: "of_int \<lfloor>y\<rfloor> \<le> y" "y < of_int \<lfloor>y\<rfloor> + 1" by linarith+
  consider "y - of_int \<lfloor>y\<rfloor> < 1 / 2" | "1 / 2 < y - of_int \<lfloor>y\<rfloor>"
    | "y - of_int \<lfloor>y\<rfloor> = 1 / 2" by linarith
  then show ?thesis
  proof cases
    case 1
    then have "round_even y = \<lfloor>y\<rfloor>" by (simp add: round_even_def Let_def)
    with 1 f show ?thesis by linarith
  next
    case 2
    then have "round_even y = \<lfloor>y\<rfloor> + 1" by (simp add: round_even_def Let_def)
    then have "of_int (round_even y) = (of_int \<lfloor>y\<rfloor> :: rat) + 1" by simp
    with 2 f show ?thesis by linarith
  next
    case 3
    then have "round_even y = \<lfloor>y\<rfloor> \<or> round_even y = \<lfloor>y\<rfloor> + 1"
      by (simp add: round_even_def Let_def)
    then have "of_int (round_even y) = (of_int \<lfloor>y\<rfloor> :: rat)
        \<or> of_int (round_even y) = (of_int \<lfloor>y\<rfloor> :: rat) + 1" by auto
    with 3 show ?thesis by linarith
  qed
qed

lemma double_eval:
  assumes "2 powi e \<le> x" and "x < 2 powi (e + 1)" and "- 1022 \<le> e"
    and "\<bar>x / 2 powi (e - 52) - of_int m\<bar> < 1 / 2"
    and "of_int m * 2 powi (e - 52) < (2::rat) powi 1024"
  shows "double x = JNum (of_int m * 2 powi (e - 52))"
proof -
  have x: "0 < x" using assms(1) by (rule less_le_trans [rotated]) simp
  then have ax: "\<bar>x\<bar> = x" by simp
  have e: "max (ilog2 x) (- 1022) = e"
    using ilog2_unique [OF assms(1,2)] assms(3) by simp
  have m: "round_even (x / 2 powi (e - 52)) = m"
    using round_even_near [OF assms(4)] by simp
  have "double x =
      (let r = of_int (round_even (x / 2 powi (e - 52))) * 2 powi (e - 52)
       in if 2 powi 1024 \<le> r then JInf (0 < x) else JNum (sgn x * r))"
    using x unfolding double_def ax Let_def e by simp
  also have "\<dots> = JNum (of_int m * 2 powi (e - 52))"
    unfolding m Let_def using x assms(5) by simp
  finally show ?thesis .
qed

lemma double_tenth: "double (1 / 10) = JNum (3602879701896397 / 36028797018963968)"
  using double_eval [of "- 4" "1 / 10" 7205759403792794] by simp

lemma double_ten: "double (3602879701896397 / 36028797018963968 * 100) = JNum 10"
  using double_eval [of 3 "3602879701896397 / 36028797018963968 * 100" 5629499534213120]
  by simp

lemma double_fifth: "double (1 / 5) = JNum (3602879701896397 / 18014398509481984)"
  using double_eval [of "- 3" "1 / 5" 7205759403792794] by simp

lemma double_twenty: "double (3602879701896397 / 18014398509481984 * 100) = JNum 20"
  using double_eval [of 4 "3602879701896397 / 18014398509481984 * 100" 5629499534213120]
  by simp

lemma double_128: "double 128 = JNum 128"
  using double_eval [of 7 128 4503599627370496] by simp

lemma double_96: "double 96 = JNum 96"
  using double_eval [of 6 96 6755399441055744] by simp

lemma double_11_20: "double (11 / 20) = JNum (2476979795053773 / 4503599627370496)"
  using double_eval [of "- 1" "11 / 20" 4953959590107546] by simp

lemma double_55: "double (2476979795053773 / 4503599627370496 * 100)
    = JNum (7740561859543041 / 140737488355328)"
  using double_eval [of 5 "2476979795053773 / 4503599627370496 * 100" 7740561859543041]
  by simp

lemma double_near:
  assumes "2 powi (- 1022) \<le> \<bar>x\<bar>" and "\<bar>x\<bar> < 2 powi 1023"
  shows "\<exists>r. double x = JNum r \<and> \<bar>r - x\<bar> \<le> \<bar>x\<bar> / 2 ^ 53"
proof -
  define e where "e = ilog2 \<bar>x\<bar>"
  define q :: rat where "q = 2 powi (e - 52)"
  define n where "n = round_even (\<bar>x\<bar> / q)"
  have pos: "0 < \<bar>x\<bar>" using assms(1) by (rule less_le_trans [rotated]) simp
  then have x0: "x \<noteq> 0" by simp
  note b = ilog2_bounds [OF pos, folded e_def]
  have "(2::rat) powi (- 1022) < 2 powi (e + 1)" using assms(1) b by linarith
  then have lo: "- 1022 \<le> e"
    using power_int_increasing [of "e + 1" "- 1022" "2::rat"] by fastforce
  have "(2::rat) powi e < 2 powi 1023" using assms(2) b by linarith
  then have hi: "e \<le> 1022"
    using power_int_increasing [of 1023 e "2::rat"] by fastforce
  have m: "max (ilog2 \<bar>x\<bar>) (- 1022) = e" using lo by (simp add: e_def)
  have qpos: "0 < q" by (simp add: q_def)
  have q2: "q * 2 ^ 53 = 2 * 2 powi e"
    by (simp add: q_def power_int_diff)
  have "\<bar>of_int n - \<bar>x\<bar> / q\<bar> \<le> 1 / 2" unfolding n_def by (rule round_even_bound)
  then have "\<bar>of_int n - \<bar>x\<bar> / q\<bar> * q \<le> 1 / 2 * q"
    using qpos by (intro mult_right_mono) simp_all
  then have "\<bar>(of_int n - \<bar>x\<bar> / q) * q\<bar> \<le> q / 2"
    using qpos by (simp add: abs_mult)
  moreover have "(of_int n - \<bar>x\<bar> / q) * q = of_int n * q - \<bar>x\<bar>"
    using qpos by (simp add: field_simps)
  ultimately have near: "\<bar>of_int n * q - \<bar>x\<bar>\<bar> \<le> q / 2"
    by simp
  have "q / 2 * 2 ^ 53 = 2 powi e" using q2 by simp
  also have "\<dots> \<le> \<bar>x\<bar>" using b by simp
  finally have qx: "q / 2 \<le> \<bar>x\<bar> / 2 ^ 53" by (simp add: field_simps)
  have "(2::rat) powi (e + 1) \<le> 2 powi 1023"
    using hi by (intro power_int_increasing) simp_all
  then have x1: "\<bar>x\<bar> < 2 powi 1023" using b by linarith
  have "\<bar>x\<bar> / 2 ^ 53 \<le> \<bar>x\<bar>" using pos by (simp add: field_simps)
  then have "of_int n * q \<le> \<bar>x\<bar> + \<bar>x\<bar>" using near qx by linarith
  also have "\<dots> < 2 * 2 powi 1023" using x1 by simp
  also have "\<dots> = (2::rat) powi 1024" by simp
  finally have fin: "\<not> (2::rat) powi 1024 \<le> of_int n * q" by simp
  have d: "double x = JNum (sgn x * (of_int n * q))"
    using x0 fin unfolding double_def Let_def m q_def [symmetric] n_def [symmetric] by simp
  have "sgn x * (of_int n * q) - x = sgn x * (of_int n * q - \<bar>x\<bar>)"
    using x0 by (simp add: sgn_if abs_if algebra_simps)
  then have "\<bar>sgn x * (of_int n * q) - x\<bar> = \<bar>of_int n * q - \<bar>x\<bar>\<bar>"
    using x0 by (simp only: abs_mult abs_sgn_eq) simp
  with near qx d show ?thesis by simp
qed


subsection \<open>Overlay projection\<close>

lemma double_number: "(\<exists>r. double x = JNum r) \<or> (\<exists>b. double x = JInf b)"
  by (simp add: double_def Let_def)

lemma convertible_double [simp]: "convertible (double x)"
  using double_number [of x] by auto

lemma convertible_fmul100 [simp]: "convertible (fmul100 v)"
  by (cases v) simp_all

lemma ToNumber_None: "(ToNumber conv v = None) = (\<not> convertible v)"
  by (cases v) simp_all

lemma ToNumber_Some: "ToNumber conv v = Some x \<Longrightarrow> convertible v"
  by (cases v) (auto split: if_splits)

lemma js_minus_None:
  "(js_minus conv a b = None) = (\<not> convertible a \<or> \<not> convertible b)"
  by (auto simp add: js_minus_def ToNumber_None dest: ToNumber_Some split: bind_splits)

lemma percent_None: "(percent conv a n = None) = (\<not> convertible a)"
  by (auto simp add: percent_def ToNumber_None dest: ToNumber_Some split: bind_splits)

lemma percent_convertible: "percent conv a n = Some p \<Longrightarrow> convertible p"
  by (auto simp add: percent_def split: bind_splits)

lemma get_truthy: "truthy v \<Longrightarrow> get v k = Some (opt_prop v k)"
  by (cases v) (simp_all add: opt_prop_def)

lemma get_bbox: "truthy (opt_prop m ''bbox'') \<Longrightarrow> get m k = Some (opt_prop m k)"
  by (cases m) (simp_all add: opt_prop_def)

lemma those_map_None:
  "(those (map f xs) = None) = (\<exists>x\<in>set xs. f x = None)"
  by (induction xs) (auto split: option.splits)

lemma those_append:
  "those xs = Some as \<Longrightarrow> those ys = Some bs \<Longrightarrow> those (xs @ ys) = Some (as @ bs)"
  by (induction xs arbitrary: as) (auto split: option.splits)

lemma map_filter_append:
  "List.map_filter g (xs @ ys) = List.map_filter g xs @ List.map_filter g ys"
  by (simp add: List.map_filter_def)

lemma fsub_number [simp]: "convertible (fsub x y)"
  by (cases x; cases y) simp_all

lemma box_of_skip: "\<not> truthy (opt_prop m ''bbox'') \<Longrightarrow> box_of conv vs m = Some None"
  by (simp add: box_of_def)

lemma box_of_None:
  "(box_of conv vs m = None) =
     (truthy (opt_prop m ''bbox'')
      \<and> \<not> (convertible (opt_prop (opt_prop m ''bbox'') ''x_max'')
           \<and> convertible (opt_prop (opt_prop m ''bbox'') ''x_min'')
           \<and> convertible (opt_prop (opt_prop m ''bbox'') ''y_max'')
           \<and> convertible (opt_prop (opt_prop m ''bbox'') ''y_min'')))"
proof (cases "truthy (opt_prop m ''bbox'')")
  case False
  then show ?thesis by (simp add: box_of_def)
next
  case True
  note g = get_truthy [OF True] get_bbox [OF True]
  show ?thesis
  proof (cases "convertible (opt_prop (opt_prop m ''bbox'') ''x_max'')
           \<and> convertible (opt_prop (opt_prop m ''bbox'') ''x_min'')
           \<and> convertible (opt_prop (opt_prop m ''bbox'') ''y_max'')
           \<and> convertible (opt_prop (opt_prop m ''bbox'') ''y_min'')")
    case c: True
    obtain w where w: "js_minus conv (opt_prop (opt_prop m ''bbox'') ''x_max'')
        (opt_prop (opt_prop m ''bbox'') ''x_min'') = Some w"
      using c js_minus_None [of conv "opt_prop (opt_prop m ''bbox'') ''x_max''"
          "opt_prop (opt_prop m ''bbox'') ''x_min''"] by auto
    obtain h where h: "js_minus conv (opt_prop (opt_prop m ''bbox'') ''y_max'')
        (opt_prop (opt_prop m ''bbox'') ''y_min'') = Some h"
      using c js_minus_None [of conv "opt_prop (opt_prop m ''bbox'') ''y_max''"
          "opt_prop (opt_prop m ''bbox'') ''y_min''"] by auto
    have cw: "convertible w" "convertible h"
      using w h by (auto simp add: js_minus_def fsub_number split: bind_splits)
    have p: "\<exists>p. percent conv a n = Some p \<and> convertible p" if "convertible a" for a n
      using that percent_None [of conv a n] percent_convertible [of conv a n] by auto
    obtain l where l: "percent conv (opt_prop (opt_prop m ''bbox'') ''x_min'') (width vs) = Some l"
      "convertible l" using p c by blast
    obtain t where t: "percent conv (opt_prop (opt_prop m ''bbox'') ''y_min'') (height vs) = Some t"
      "convertible t" using p c by blast
    obtain pw where pw: "percent conv w (width vs) = Some pw" "convertible pw"
      using p cw by blast
    obtain ph where ph: "percent conv h (height vs) = Some ph" "convertible ph"
      using p cw by blast
    have "box_of conv vs m \<noteq> None"
      using True c by (simp add: box_of_def Let_def g w h l t pw ph interpolate_def)
    with True c show ?thesis by simp
  next
    case c: False
    then have "js_minus conv (opt_prop (opt_prop m ''bbox'') ''x_max'')
        (opt_prop (opt_prop m ''bbox'') ''x_min'') = None
      \<or> js_minus conv (opt_prop (opt_prop m ''bbox'') ''y_max'')
        (opt_prop (opt_prop m ''bbox'') ''y_min'') = None"
      by (auto simp add: js_minus_None)
    then have "box_of conv vs m = None"
      using True by (auto simp add: box_of_def Let_def g split: bind_splits)
    with True c show ?thesis by simp
  qed
qed

lemma box_of_numeric:
  assumes "truthy (opt_prop m ''bbox'')"
    and "opt_prop (opt_prop m ''bbox'') ''x_min'' = JNum x0"
    and "opt_prop (opt_prop m ''bbox'') ''y_min'' = JNum y0"
    and "opt_prop (opt_prop m ''bbox'') ''x_max'' = JNum x1"
    and "opt_prop (opt_prop m ''bbox'') ''y_max'' = JNum y1"
  shows "box_of conv vs m = Some (Some \<lparr>
            box_id = (if nullish (opt_prop m ''id'')
                      then Derived [Val (JNum x0), Lit ''-'', Val (JNum y0)]
                      else Given (opt_prop m ''id'')),
            label = opt_prop (opt_prop m ''entity'') ''label'',
            style = \<lparr>
              style_left = [Val (fmul100 (fdiv (JNum x0) (width vs))), Lit ''%''],
              style_top = [Val (fmul100 (fdiv (JNum y0) (height vs))), Lit ''%''],
              style_width =
                [Val (fmul100 (fdiv (fsub (JNum x1) (JNum x0)) (width vs))), Lit ''%''],
              style_height =
                [Val (fmul100 (fdiv (fsub (JNum y1) (JNum y0)) (height vs))), Lit ''%'']\<rparr>,
            status_code = opt_prop m ''status_code'',
            distance = opt_prop m ''distance''\<rparr>)"
proof -
  note g = get_truthy [OF assms(1)] get_bbox [OF assms(1)]
  have n: "ToNumber conv (fsub (JNum a) (JNum b)) = Some (fsub (JNum a) (JNum b))" for a b
    using double_number [of "a - b"] by auto
  show ?thesis
    using assms(1)
    by (simp add: box_of_def Let_def g assms(2-5) js_minus_def percent_def interpolate_def n
        del: fsub.simps fdiv.simps fmul100.simps)
qed

lemma boxes_None:
  "0 < width vs \<Longrightarrow> 0 < height vs \<Longrightarrow>
   (boxes conv vs ms = None) = (\<exists>m\<in>set ms. box_of conv vs m = None)"
  by (simp add: boxes_def those_map_None)

lemma boxes_insert:
  assumes "0 < width vs" and "0 < height vs"
    and "boxes conv vs xs = Some bxs" and "boxes conv vs ys = Some bys"
    and "box_of conv vs m = Some r"
  shows "boxes conv vs (xs @ m # ys) = Some (bxs @ (case r of None \<Rightarrow> [] | Some b \<Rightarrow> [b]) @ bys)"
proof -
  from assms(1-3) obtain rx where rx: "those (map (box_of conv vs) xs) = Some rx"
    "bxs = List.map_filter (\<lambda>b. b) rx" by (auto simp add: boxes_def)
  from assms(1,2,4) obtain ry where ry: "those (map (box_of conv vs) ys) = Some ry"
    "bys = List.map_filter (\<lambda>b. b) ry" by (auto simp add: boxes_def)
  have "those (map (box_of conv vs) (m # ys)) = Some (r # ry)"
    using ry(1) assms(5) by simp
  then have "those (map (box_of conv vs) (xs @ m # ys)) = Some (rx @ r # ry)"
    using those_append [OF rx(1)] by simp
  then show ?thesis
    using assms(1,2) rx(2) ry(2)
    by (cases r) (simp_all add: boxes_def map_filter_append List.map_filter_simps)
qed

lemma boxes_skip:
  assumes "\<not> truthy (opt_prop m ''bbox'')"
  shows "boxes conv vs (xs @ m # ys) = boxes conv vs (xs @ ys)"
proof (cases "width vs = 0 \<or> height vs = 0")
  case True
  then show ?thesis by (auto simp add: boxes_def)
next
  case False
  then have g: "0 < width vs" "0 < height vs" by simp_all
  note s = box_of_skip [OF assms, of conv vs]
  show ?thesis
  proof (cases "boxes conv vs xs = None \<or> boxes conv vs ys = None")
    case True
    then have "boxes conv vs (xs @ m # ys) = None" "boxes conv vs (xs @ ys) = None"
      using s by (auto simp add: boxes_None [OF g])
    then show ?thesis by simp
  next
    case False
    then obtain bxs bys where b: "boxes conv vs xs = Some bxs" "boxes conv vs ys = Some bys"
      by auto
    have "boxes conv vs (xs @ ys) = Some (bxs @ bys)"
      using b g by (auto simp add: boxes_def those_append map_filter_append)
    then show ?thesis using boxes_insert [OF g b s] by simp
  qed
qed

lemma show_nat_examples:
  "show_nat 10 = ''10''" "show_nat 20 = ''20''" "show_nat 64 = ''64''" "show_nat 48 = ''48''"
  "show_nat 503 = ''503''"
  by (simp_all add: show_nat.simps)

lemma percent_tenth: "fmul100 (double (1 / 10)) = JNum 10"
  by (simp only: double_tenth fmul100.simps double_ten)

lemma percent_fifth: "fmul100 (double (1 / 5)) = JNum 20"
  by (simp only: double_fifth fmul100.simps double_twenty)

lemma percent_11_20:
  "fmul100 (double (11 / 20)) = JNum (7740561859543041 / 140737488355328)"
  by (simp only: double_11_20 fmul100.simps double_55)

lemma scenario_A_percent:
  "fmul100 (fdiv (JNum 64) 640) = JNum 10"
  "fmul100 (fdiv (JNum 48) 480) = JNum 10"
  "fmul100 (fdiv (fsub (JNum 192) (JNum 64)) 640) = JNum 20"
  "fmul100 (fdiv (fsub (JNum 144) (JNum 48)) 480) = JNum 20"
  by (simp_all add: double_128 double_96 percent_tenth percent_fifth)


text \<open>
  C4. \<open>boxes\<close> is a function of the batch and the video size. It is empty when the
  width or the height is zero, and when the batch is empty. A detection whose \<open>bbox\<close>
  is \<open>null\<close>, absent or otherwise falsy is left out, and the result is that of the batch
  without it. A detection with a box of numbers \<open>x0, y0, x1, y1\<close> gives, at its place
  between the boxes of the detections before and after it, the rectangle
  \<open>(x0 / width) * 100\<close>, \<open>(y0 / height) * 100\<close>, \<open>((x1 - x0) / width) * 100\<close>,
  \<open>((y1 - y0) / height) * 100\<close>, each followed by \<open>%\<close>, where every operation gives
  the nearest double: within \<open>2^-53\<close> of the exact result, relatively, in the normal
  range. With a video size that is not zero, \<open>boxes\<close> throws exactly when some
  detection has a truthy \<open>bbox\<close> with a coordinate that does not convert to a
  primitive value.
\<close>

theorem boxes_projection:
  "(width vs = 0 \<or> height vs = 0 \<longrightarrow> boxes conv vs ms = Some [])
   \<and> boxes conv vs [] = Some []
   \<and> (\<not> truthy (opt_prop m ''bbox'') \<longrightarrow>
        boxes conv vs (xs @ m # ys) = boxes conv vs (xs @ ys))
   \<and> (truthy (opt_prop m ''bbox'')
        \<and> opt_prop (opt_prop m ''bbox'') ''x_min'' = JNum x0
        \<and> opt_prop (opt_prop m ''bbox'') ''y_min'' = JNum y0
        \<and> opt_prop (opt_prop m ''bbox'') ''x_max'' = JNum x1
        \<and> opt_prop (opt_prop m ''bbox'') ''y_max'' = JNum y1
        \<and> 0 < width vs \<and> 0 < height vs
        \<and> boxes conv vs xs = Some bxs \<and> boxes conv vs ys = Some bys \<longrightarrow>
        boxes conv vs (xs @ m # ys) =
          Some (bxs @
            \<lparr>box_id = (if nullish (opt_prop m ''id'')
                       then Derived [Val (JNum x0), Lit ''-'', Val (JNum y0)]
                       else Given (opt_prop m ''id'')),
             label = opt_prop (opt_prop m ''entity'') ''label'',
             style = \<lparr>
               style_left = [Val (fmul100 (fdiv (JNum x0) (width vs))), Lit ''%''],
               style_top = [Val (fmul100 (fdiv (JNum y0) (height vs))), Lit ''%''],
               style_width =
                 [Val (fmul100 (fdiv (fsub (JNum x1) (JNum x0)) (width vs))), Lit ''%''],
               style_height =
                 [Val (fmul100 (fdiv (fsub (JNum y1) (JNum y0)) (height vs))), Lit ''%'']\<rparr>,
             status_code = opt_prop m ''status_code'',
             distance = opt_prop m ''distance''\<rparr> # bys))
   \<and> (0 < width vs \<and> 0 < height vs \<longrightarrow>
        (boxes conv vs ms = None) =
          (\<exists>m \<in> set ms. truthy (opt_prop m ''bbox'')
             \<and> \<not> (convertible (opt_prop (opt_prop m ''bbox'') ''x_max'')
                  \<and> convertible (opt_prop (opt_prop m ''bbox'') ''x_min'')
                  \<and> convertible (opt_prop (opt_prop m ''bbox'') ''y_max'')
                  \<and> convertible (opt_prop (opt_prop m ''bbox'') ''y_min''))))
   \<and> fsub (JNum x) (JNum y) = double (x - y)
   \<and> (0 < n \<longrightarrow> fdiv (JNum x) n = double (x / of_nat n))
   \<and> fmul100 (JNum x) = double (x * 100)
   \<and> (2 powi (- 1022) \<le> \<bar>x\<bar> \<and> \<bar>x\<bar> < 2 powi 1023 \<longrightarrow>
        (\<exists>r. double x = JNum r \<and> \<bar>r - x\<bar> \<le> \<bar>x\<bar> / 2 ^ 53))"
proof (intro conjI impI)
  assume "\<not> truthy (opt_prop m ''bbox'')"
  then show "boxes conv vs (xs @ m # ys) = boxes conv vs (xs @ ys)" by (rule boxes_skip)
next
  assume a: "truthy (opt_prop m ''bbox'')
        \<and> opt_prop (opt_prop m ''bbox'') ''x_min'' = JNum x0
        \<and> opt_prop (opt_prop m ''bbox'') ''y_min'' = JNum y0
        \<and> opt_prop (opt_prop m ''bbox'') ''x_max'' = JNum x1
        \<and> opt_prop (opt_prop m ''bbox'') ''y_max'' = JNum y1
        \<and> 0 < width vs \<and> 0 < height vs
        \<and> boxes conv vs xs = Some bxs \<and> boxes conv vs ys = Some bys"
  then have g: "0 < width vs" "0 < height vs" "boxes conv vs xs = Some bxs"
    "boxes conv vs ys = Some bys" by simp_all
  from a have b: "truthy (opt_prop m ''bbox'')"
    "opt_prop (opt_prop m ''bbox'') ''x_min'' = JNum x0"
    "opt_prop (opt_prop m ''bbox'') ''y_min'' = JNum y0"
    "opt_prop (opt_prop m ''bbox'') ''x_max'' = JNum x1"
    "opt_prop (opt_prop m ''bbox'') ''y_max'' = JNum y1" by simp_all
  show "boxes conv vs (xs @ m # ys) =
          Some (bxs @
            \<lparr>box_id = (if nullish (opt_prop m ''id'')
                       then Derived [Val (JNum x0), Lit ''-'', Val (JNum y0)]
                       else Given (opt_prop m ''id'')),
             label = opt_prop (opt_prop m ''entity'') ''label'',
             style = \<lparr>
               style_left = [Val (fmul100 (fdiv (JNum x0) (width vs))), Lit ''%''],
               style_top = [Val (fmul100 (fdiv (JNum y0) (height vs))), Lit ''%''],
               style_width =
                 [Val (fmul100 (fdiv (fsub (JNum x1) (JNum x0)) (width vs))), Lit ''%''],
               style_height =
                 [Val (fmul100 (fdiv (fsub (JNum y1) (JNum y0)) (height vs))), Lit ''%'']\<rparr>,
             status_code = opt_prop m ''status_code'',
             distance = opt_prop m ''distance''\<rparr> # bys)"
    using boxes_insert [OF g box_of_numeric [OF b, of conv vs]] by simp
next
  assume "0 < width vs \<and> 0 < height vs"
  then show "(boxes conv vs ms = None) =
          (\<exists>m \<in> set ms. truthy (opt_prop m ''bbox'')
             \<and> \<not> (convertible (opt_prop (opt_prop m ''bbox'') ''x_max'')
                  \<and> convertible (opt_prop (opt_prop m ''bbox'') ''x_min'')
                  \<and> convertible (opt_prop (opt_prop m ''bbox'') ''y_max'')
                  \<and> convertible (opt_prop (opt_prop m ''bbox'') ''y_min'')))"
    by (simp only: boxes_None box_of_None)
next
  assume "2 powi (- 1022) \<le> \<bar>x\<bar> \<and> \<bar>x\<bar> < 2 powi 1023"
  then show "\<exists>r. double x = JNum r \<and> \<bar>r - x\<bar> \<le> \<bar>x\<bar> / 2 ^ 53"
    using double_near [of x] by simp
qed (simp_all add: boxes_def)

text \<open>
  The witness: a video size with zero width; a detection with a \<open>null\<close> box before
  another one; scenario A of the specification, a 640 by 480 video and the box
  \<open>64, 48, 192, 144\<close>, which gives 10%, 10%, 20%, 20%; a batch in which one box has the
  coordinate \<open>{"toString": null}\<close>, for which \<open>boxes\<close> throws; the left edge 352 in a
  width of 640, which is 55.00000000000001 and not 55; and the double of one tenth.
\<close>

theorem boxes_projection_witness:
  "boxes no_conv \<lparr>width = 0, height = 480\<rparr> [scenario_A] = Some []
   \<and> boxes no_conv \<lparr>width = 640, height = 480\<rparr> [JObj [(''bbox'', JNull)], scenario_A]
       = boxes no_conv \<lparr>width = 640, height = 480\<rparr> [scenario_A]
   \<and> boxes no_conv \<lparr>width = 640, height = 480\<rparr> [scenario_A] =
       Some [\<lparr>box_id = Derived [Val (JNum 64), Lit ''-'', Val (JNum 48)],
              label = JUndefined,
              style = \<lparr>style_left = [Val (JNum 10), Lit ''%''],
                       style_top = [Val (JNum 10), Lit ''%''],
                       style_width = [Val (JNum 20), Lit ''%''],
                       style_height = [Val (JNum 20), Lit ''%'']\<rparr>,
              status_code = JNum 200, distance = JUndefined\<rparr>]
   \<and> render [Val (JNum 10), Lit ''%''] = Some ''10%''
   \<and> render [Val (JNum 20), Lit ''%''] = Some ''20%''
   \<and> boxes no_conv \<lparr>width = 640, height = 480\<rparr>
        [scenario_A, JObj [(''bbox'', JObj [(''x_min'', JObj [(''toString'', JNull)])])]] = None
   \<and> fmul100 (fdiv (JNum 352) 640) = JNum (7740561859543041 / 140737488355328)
   \<and> (\<exists>r. double (1 / 10) = JNum r \<and> \<bar>r - 1 / 10\<bar> \<le> 1 / 10 / 2 ^ 53)"
proof -
  have h: "(2::rat) powi (- 1022) \<le> \<bar>1 / 10\<bar> \<and> \<bar>1 / 10 :: rat\<bar> < 2 powi 1023"
    by simp
  have r: "render [Val (JNum 10), Lit ''%''] = Some ''10%''"
    "render [Val (JNum 20), Lit ''%''] = Some ''20%''"
    by (simp_all add: render_def show_nat_examples)
  have e: "boxes no_conv \<lparr>width = 640, height = 480\<rparr> [] = Some []"
    by (simp add: boxes_def)
  show ?thesis
    using boxes_projection [where vs = "\<lparr>width = 0, height = 480\<rparr>" and conv = no_conv
        and ms = "[scenario_A]" and m = "JObj [(''bbox'', JNull)]" and xs = "[]"
        and ys = "[scenario_A]" and x = "1 / 10" and n = 640]
      boxes_projection [where vs = "\<lparr>width = 640, height = 480\<rparr>" and conv = no_conv
        and ms = "[scenario_A, JObj [(''bbox'', JObj [(''x_min'', JObj [(''toString'', JNull)])])]]"
        and m = "JObj [(''bbox'', JNull)]" and xs = "[]"
        and ys = "[scenario_A]" and x = 352 and n = 640]
      boxes_projection [where vs = "\<lparr>width = 640, height = 480\<rparr>" and conv = no_conv
        and ms = "[]" and m = scenario_A and xs = "[]" and ys = "[]" and bxs = "[]"
        and bys = "[]" and ?x0.0 = 64 and ?y0.0 = 48 and ?x1.0 = 192 and ?y1.0 = 144]
      h r e
    by (simp add: scenario_A_def opt_prop_def nullish_def scenario_A_percent percent_11_20
        del: fsub.simps fdiv.simps fmul100.simps power_int_minus)
qed


text \<open>
  C9. The overlay takes \<^verbatim>\<open>match.id ?? `${bounds.x_min}-${bounds.y_min}`\<close> as its key, the
  recognition log takes \<open>match.id\<close> alone. For the detection of scenario A, which has
  no \<open>id\<close>, the key of the overlay box is the derived string \<open>64-48\<close> and the key of
  the log entry is \<open>undefined\<close>.
\<close>

theorem recognition_log_key_undefined:
  "map_option (map box_id) (boxes no_conv \<lparr>width = 640, height = 480\<rparr> [scenario_A])
     = Some [Derived [Val (JNum 64), Lit ''-'', Val (JNum 48)]]
   \<and> render [Val (JNum 64), Lit ''-'', Val (JNum 48)] = Some ''64-48''
   \<and> log_key scenario_A = Some JUndefined"
proof -
  have "box_of no_conv \<lparr>width = 640, height = 480\<rparr> scenario_A \<noteq> None"
    by (simp add: box_of_None scenario_A_def opt_prop_def)
  then show ?thesis
    by (auto simp add: boxes_def box_of_def Let_def scenario_A_def opt_prop_def nullish_def
        render_def show_nat_examples log_key_def List.map_filter_simps interpolate_def
        split: bind_splits)
qed


subsection \<open>Frame encoder\<close>











subsection \<open>Poll loop: starting\<close>

lemmas setters = setStreamReady_def setIsScanning_def setIsProcessing_def setFeedback_def
  setMatches_def setVideoSize_def setLastUpdated_def setLatency_def

text \<open>
  C6. A click while idle, with no endpoint configured (\<open>API_URL\<close> unset or empty) or
  before the camera stream is ready, only sets the feedback message: \<open>isScanning\<close>
  stays false, the effect does not run, no task is added and \<open>fetch\<close> is not called.
  The check is in \<open>toggleScanning\<close>, before \<open>runLoop\<close> exists.
\<close>

theorem start_preconditions:
  assumes "\<not> isScanning (ui s)"
    and "api = None \<or> api = Some [] \<or> \<not> streamReady (ui s)"
  shows "step api cam now Click s =
           s\<lparr>ui := (ui s)\<lparr>feedback :=
                 (if api = None \<or> api = Some []
                  then ''Missing VITE_RECOGNITION_API_URL in your .env file.''
                  else ''Camera is not ready yet.'')\<rparr>\<rparr>
       \<and> \<not> isScanning (ui (step api cam now Click s))
       \<and> feedback (ui (step api cam now Click s)) \<noteq> []
       \<and> fetched (step api cam now Click s) = fetched s
       \<and> tasks (step api cam now Click s) = tasks s
       \<and> cleanup (step api cam now Click s) = cleanup s"
  using assms by (auto simp add: step_def click_def toggleScanning_def setters)

theorem start_preconditions_witness:
  "step None cam_hd 10 Click (step None cam_hd 0 CameraGranted init) =
     (step None cam_hd 0 CameraGranted init)
       \<lparr>ui := (ui (step None cam_hd 0 CameraGranted init))
          \<lparr>feedback := ''Missing VITE_RECOGNITION_API_URL in your .env file.''\<rparr>\<rparr>
   \<and> fetched (step None cam_hd 10 Click (step None cam_hd 0 CameraGranted init)) = 0
   \<and> feedback (ui (step (Some ''http://api'') cam_hd 10 Click init)) = ''Camera is not ready yet.''
   \<and> \<not> isScanning (ui (step (Some ''http://api'') cam_hd 10 Click init))"
  using start_preconditions [of "step None cam_hd 0 CameraGranted init" None cam_hd 10]
    start_preconditions [of init "Some ''http://api''" cam_hd 10]
  by (simp add: step_def init_def setters)

subsection \<open>Poll loop: a cycle that fails\<close>

lemma finally_block_live:
  "l \<notin> set (cancelled s) \<Longrightarrow>
   finally_block l s =
     s\<lparr>ui := (ui s)\<lparr>isProcessing := False\<rparr>, loopRef := Some (fresh s),
       tasks := tasks s @ [Timer (fresh s) l POLL_DELAY_MS], fresh := Suc (fresh s)\<rparr>"
  by (simp add: finally_block_def setters Let_def)

lemma finally_block_cancelled:
  "l \<in> set (cancelled s) \<Longrightarrow> finally_block l s = s\<lparr>ui := (ui s)\<lparr>isProcessing := False\<rparr>\<rparr>"
  by (simp add: finally_block_def setters Let_def)

lemma timers_append: "timers (xs @ ys) = timers xs @ timers ys"
  by (induction xs rule: timers.induct) simp_all

lemma outstanding_append: "outstanding (xs @ ys) = outstanding xs @ outstanding ys"
  by (induction xs rule: outstanding.induct) simp_all

lemma timers_filter_fetch: "timers (filter (\<lambda>x. \<not> is_fetch c x) xs) = timers xs"
  by (induction xs rule: timers.induct) simp_all

lemma outstanding_filter_fetch:
  "outstanding (filter (\<lambda>x. \<not> is_fetch c x) xs) = filter (\<lambda>c'. c' \<noteq> c) (outstanding xs)"
  by (induction xs rule: outstanding.induct) simp_all

lemma outstanding_filter_timer: "outstanding (filter (\<lambda>x. \<not> is_timer h x) xs) = outstanding xs"
  by (induction xs rule: outstanding.induct) simp_all

lemma timers_filter_timer:
  "timers (filter (\<lambda>x. \<not> is_timer h x) xs) = filter (\<lambda>h'. h' \<noteq> h) (timers xs)"
  by (induction xs rule: timers.induct) simp_all

lemma scale_hd: "scale 1280 720 = 1 / 2"
  by (simp add: scale_def MAX_FRAME_WIDTH_def MAX_FRAME_HEIGHT_def)

lemma draw_hd: "captureFrame_draw cam_hd cv = (Inr (), \<lparr>width = 640, height = 360\<rparr>)"
proof -
  have f: "\<lfloor>1281 / 2 :: rat\<rfloor> = 640" "\<lfloor>721 / 2 :: rat\<rfloor> = 360"
    by (simp_all add: floor_eq_iff)
  show ?thesis
    by (simp add: captureFrame_draw_def cam_hd_def targetWidth_def targetHeight_def
        Math_round_def scale_hd f)
qed

lemma in_flight_eq:
  "in_flight = \<lparr>
     ui = \<lparr>streamReady = True, isScanning = True, isProcessing = True, feedback = [],
           matches = [], videoSize = \<lparr>width = 640, height = 360\<rparr>, lastUpdated = None,
           latency = None\<rparr>,
     loopRef = None, abortRef = Some 2, canvas = \<lparr>width = 640, height = 360\<rparr>,
     cancelled = [], cleanup = Some 1, tasks = [Fetch 2 1 15], fresh = 3, fetched = 1\<rparr>"
  by (simp add: in_flight_def api_url_def init_def step_def click_def toggleScanning_def
      effect_isScanning_def effect_running_def runLoop_def runLoop_captured_def
      captureFrame_blob_def draw_hd setters Let_def cancelled_outcome_def)

lemma catch_block_failure:
  "name e \<noteq> ''AbortError'' \<Longrightarrow>
   catch_block e l s =
     (if l \<in> set (cancelled s)
      then s\<lparr>ui := (ui s)\<lparr>feedback := (if message e = [] then ''Scan failed. Please try again.''
                                        else message e),
                           isProcessing := False\<rparr>\<rparr>
      else s\<lparr>ui := (ui s)\<lparr>feedback := (if message e = [] then ''Scan failed. Please try again.''
                                        else message e),
                           isProcessing := False\<rparr>,
             loopRef := Some (fresh s),
             tasks := tasks s @ [Timer (fresh s) l POLL_DELAY_MS],
             fresh := Suc (fresh s)\<rparr>)"
  by (simp add: catch_block_def finally_block_def setters Let_def)

lemma catch_block_recovers:
  assumes "name e \<noteq> ''AbortError''"
  shows "\<not> isProcessing (ui (catch_block e l s))
    \<and> feedback (ui (catch_block e l s)) =
        (if message e = [] then ''Scan failed. Please try again.'' else message e)
    \<and> isScanning (ui (catch_block e l s)) = isScanning (ui s)
    \<and> matches (ui (catch_block e l s)) = matches (ui s)
    \<and> lastUpdated (ui (catch_block e l s)) = lastUpdated (ui s)
    \<and> latency (ui (catch_block e l s)) = latency (ui s)
    \<and> cleanup (catch_block e l s) = cleanup s
    \<and> cancelled (catch_block e l s) = cancelled s
    \<and> fetched (catch_block e l s) = fetched s
    \<and> tasks (catch_block e l s) =
        tasks s @ (if l \<in> set (cancelled s) then [] else [Timer (fresh s) l POLL_DELAY_MS])
    \<and> loopRef (catch_block e l s) =
        (if l \<in> set (cancelled s) then loopRef s else Some (fresh s))"
  by (simp add: catch_block_failure [OF assms])

lemma draw_error:
  assumes "fst (captureFrame_draw cam cv) = Inl e"
  shows "name e = ''Error'' \<and> message e \<noteq> []"
  using assms by (auto simp add: captureFrame_draw_def Error_def Let_def split: if_splits)

lemma step_capture_fails:
  "Capture l \<in> set (tasks s) \<Longrightarrow>
   step api cam now (ToBlob l None) s =
     catch_block (Error ''Unable to capture frame'') l
       (s\<lparr>tasks := remove1 (Capture l) (tasks s)\<rparr>)"
  by (simp add: step_def runLoop_captured_def captureFrame_blob_def)

lemma step_rejected:
  "fetch_task c (tasks s) = Some (l, t) \<Longrightarrow>
   step api cam now (Settle c (Rejected m)) s =
     catch_block \<lparr>name = ''TypeError'', message = m\<rparr> l
       (s\<lparr>tasks := filter (\<lambda>x. \<not> is_fetch c x) (tasks s)\<rparr>)"
  by (simp add: step_def runLoop_settled_def)

lemma step_status:
  "fetch_task c (tasks s) = Some (l, t) \<Longrightarrow> \<not> ok status \<Longrightarrow>
   step api cam now (Settle c (Fulfilled status body)) s =
     catch_block (Error (''Recognition request failed with '' @ show_nat status)) l
       (s\<lparr>tasks := filter (\<lambda>x. \<not> is_fetch c x) (tasks s)\<rparr>)"
  by (simp add: step_def runLoop_settled_def)

lemma step_body:
  "fetch_task c (tasks s) = Some (l, t) \<Longrightarrow> ok status \<Longrightarrow>
   step api cam now (Settle c (Fulfilled status (Inl m))) s =
     catch_block \<lparr>name = ''SyntaxError'', message = m\<rparr> l
       (s\<lparr>tasks := filter (\<lambda>x. \<not> is_fetch c x) (tasks s)\<rparr>)"
  by (simp add: step_def runLoop_settled_def)

lemma step_timeout_fails:
  assumes "timer_task h (tasks s) = Some l" and "l \<notin> set (cancelled s)"
    and "fst (captureFrame_draw cam (canvas s)) = Inl e"
  shows "step api cam now (Timeout h) s =
     catch_block e l
       (s\<lparr>tasks := filter (\<lambda>x. \<not> is_timer h x) (tasks s),
          ui := (ui s)\<lparr>isProcessing := True\<rparr>,
          canvas := snd (captureFrame_draw cam (canvas s))\<rparr>)"
proof -
  obtain cv where c: "captureFrame_draw cam (canvas s) = (Inl e, cv)"
    using assms(3) by (cases "captureFrame_draw cam (canvas s)") simp
  show ?thesis
    using assms(1,2) by (simp add: step_def runLoop_def setters Let_def c)
qed

lemma step_start_fails:
  assumes "api \<noteq> None" and "api \<noteq> Some []" and "streamReady (ui s)"
    and "\<not> isScanning (ui s)" and "cleanup s = None" and "fresh s \<notin> set (cancelled s)"
    and "fst (captureFrame_draw cam (canvas s)) = Inl e"
  shows "step api cam now Click s =
     catch_block e (fresh s)
       (s\<lparr>fresh := Suc (fresh s),
          cleanup := Some (fresh s),
          ui := (ui s)\<lparr>feedback := [], isScanning := True, isProcessing := True\<rparr>,
          canvas := snd (captureFrame_draw cam (canvas s))\<rparr>)"
proof -
  obtain cv where c: "captureFrame_draw cam (canvas s) = (Inl e, cv)"
    using assms(7) by (cases "captureFrame_draw cam (canvas s)") simp
  obtain u where u: "api = Some u" "u \<noteq> []" using assms(1,2) by (cases api) auto
  show ?thesis
    using assms(3-6)
    by (simp add: step_def click_def toggleScanning_def effect_isScanning_def
        effect_running_def runLoop_def cancelled_outcome_def setters Let_def c u)
qed


text \<open>
  C7. A cycle fails, with an error that is not an abort, in one of six ways: \<open>toBlob\<close>
  gives no blob, the request is rejected by the network, the response has a status
  outside 200..299, its body does not parse, or the part of \<open>captureFrame\<close> that runs
  at once rejects, in a cycle started by the timer or by the start of the loop. In
  each of them \<open>isProcessing\<close> is cleared, the feedback is the message of the error (a
  fixed text when the message is empty; for a status, the text that ends with its
  digits), \<open>isScanning\<close>, the detections, the timestamp and the latency are as before,
  and no request is sent. What is scheduled depends on the closure \<open>l\<close> of the cycle:
  when \<open>l\<close> is not cancelled, exactly one timer of \<open>POLL_DELAY_MS = 350\<close> for the next
  \<open>runLoop\<close> of \<open>l\<close>, stored in \<open>loopRef\<close>; when \<open>l\<close> is cancelled, nothing.
\<close>

theorem failure_recovery:
  "((ev = ToBlob l None \<and> Capture l \<in> set (tasks s)
       \<and> msg = ''Unable to capture frame'' \<and> rest = remove1 (Capture l) (tasks s))
     \<or> (ev = Settle c (Rejected msg) \<and> fetch_task c (tasks s) = Some (l, t)
       \<and> rest = filter (\<lambda>x. \<not> is_fetch c x) (tasks s))
     \<or> (ev = Settle c (Fulfilled status body) \<and> \<not> ok status
       \<and> fetch_task c (tasks s) = Some (l, t)
       \<and> msg = ''Recognition request failed with '' @ show_nat status
       \<and> rest = filter (\<lambda>x. \<not> is_fetch c x) (tasks s))
     \<or> (ev = Settle c (Fulfilled status (Inl msg)) \<and> ok status
       \<and> fetch_task c (tasks s) = Some (l, t)
       \<and> rest = filter (\<lambda>x. \<not> is_fetch c x) (tasks s))
     \<or> (ev = Timeout h \<and> timer_task h (tasks s) = Some l \<and> l \<notin> set (cancelled s)
       \<and> fst (captureFrame_draw cam (canvas s)) = Inl e \<and> msg = message e
       \<and> rest = filter (\<lambda>x. \<not> is_timer h x) (tasks s))
    \<longrightarrow>
     (let s' = step api cam now ev s in
        \<not> isProcessing (ui s')
      \<and> feedback (ui s') = (if msg = [] then ''Scan failed. Please try again.'' else msg)
      \<and> isScanning (ui s') = isScanning (ui s)
      \<and> matches (ui s') = matches (ui s)
      \<and> lastUpdated (ui s') = lastUpdated (ui s)
      \<and> latency (ui s') = latency (ui s)
      \<and> cleanup s' = cleanup s
      \<and> cancelled s' = cancelled s
      \<and> fetched s' = fetched s
      \<and> tasks s' =
          rest @ (if l \<in> set (cancelled s) then [] else [Timer (fresh s) l POLL_DELAY_MS])
      \<and> timers (tasks s') = timers rest @ (if l \<in> set (cancelled s) then [] else [fresh s])
      \<and> outstanding (tasks s') = outstanding rest
      \<and> loopRef s' = (if l \<in> set (cancelled s) then loopRef s else Some (fresh s))))
   \<and> (api \<noteq> None \<and> api \<noteq> Some [] \<and> streamReady (ui s) \<and> \<not> isScanning (ui s)
       \<and> cleanup s = None \<and> fresh s \<notin> set (cancelled s)
       \<and> fst (captureFrame_draw cam (canvas s)) = Inl e
    \<longrightarrow>
     (let s' = step api cam now Click s in
        \<not> isProcessing (ui s')
      \<and> feedback (ui s') = message e
      \<and> isScanning (ui s')
      \<and> matches (ui s') = matches (ui s)
      \<and> lastUpdated (ui s') = lastUpdated (ui s)
      \<and> latency (ui s') = latency (ui s)
      \<and> cleanup s' = Some (fresh s)
      \<and> cancelled s' = cancelled s
      \<and> fetched s' = fetched s
      \<and> tasks s' = tasks s @ [Timer (Suc (fresh s)) (fresh s) POLL_DELAY_MS]
      \<and> loopRef s' = Some (Suc (fresh s))))
   \<and> (fst (captureFrame_draw cam cv) = Inl e \<longrightarrow>
        message e \<in> {''Camera is not ready yet.'',
                     ''Camera is warming up. Try again in a second.'',
                     ''Canvas context is unavailable.''})
   \<and> POLL_DELAY_MS = 350 \<and> \<not> ok 503 \<and> show_nat 503 = ''503''"
proof (intro conjI impI)
  assume a: "(ev = ToBlob l None \<and> Capture l \<in> set (tasks s)
       \<and> msg = ''Unable to capture frame'' \<and> rest = remove1 (Capture l) (tasks s))
     \<or> (ev = Settle c (Rejected msg) \<and> fetch_task c (tasks s) = Some (l, t)
       \<and> rest = filter (\<lambda>x. \<not> is_fetch c x) (tasks s))
     \<or> (ev = Settle c (Fulfilled status body) \<and> \<not> ok status
       \<and> fetch_task c (tasks s) = Some (l, t)
       \<and> msg = ''Recognition request failed with '' @ show_nat status
       \<and> rest = filter (\<lambda>x. \<not> is_fetch c x) (tasks s))
     \<or> (ev = Settle c (Fulfilled status (Inl msg)) \<and> ok status
       \<and> fetch_task c (tasks s) = Some (l, t)
       \<and> rest = filter (\<lambda>x. \<not> is_fetch c x) (tasks s))
     \<or> (ev = Timeout h \<and> timer_task h (tasks s) = Some l \<and> l \<notin> set (cancelled s)
       \<and> fst (captureFrame_draw cam (canvas s)) = Inl e \<and> msg = message e
       \<and> rest = filter (\<lambda>x. \<not> is_timer h x) (tasks s))"
  have "\<exists>e0 s0. step api cam now ev s = catch_block e0 l s0
      \<and> name e0 \<noteq> ''AbortError'' \<and> message e0 = msg \<and> tasks s0 = rest
      \<and> cancelled s0 = cancelled s \<and> fresh s0 = fresh s \<and> cleanup s0 = cleanup s
      \<and> fetched s0 = fetched s \<and> loopRef s0 = loopRef s
      \<and> isScanning (ui s0) = isScanning (ui s) \<and> matches (ui s0) = matches (ui s)
      \<and> lastUpdated (ui s0) = lastUpdated (ui s) \<and> latency (ui s0) = latency (ui s)"
    using a
  proof (elim disjE conjE)
    assume "ev = ToBlob l None" "Capture l \<in> set (tasks s)" "msg = ''Unable to capture frame''"
      "rest = remove1 (Capture l) (tasks s)"
    then show ?thesis
      by (intro exI [of _ "Error ''Unable to capture frame''"]
          exI [of _ "s\<lparr>tasks := remove1 (Capture l) (tasks s)\<rparr>"])
        (simp add: step_capture_fails Error_def)
  next
    assume "ev = Settle c (Rejected msg)" "fetch_task c (tasks s) = Some (l, t)"
      "rest = filter (\<lambda>x. \<not> is_fetch c x) (tasks s)"
    then show ?thesis
      by (intro exI [of _ "\<lparr>name = ''TypeError'', message = msg\<rparr>"]
          exI [of _ "s\<lparr>tasks := filter (\<lambda>x. \<not> is_fetch c x) (tasks s)\<rparr>"])
        (simp add: step_rejected)
  next
    assume "ev = Settle c (Fulfilled status body)" "\<not> ok status"
      "fetch_task c (tasks s) = Some (l, t)"
      "msg = ''Recognition request failed with '' @ show_nat status"
      "rest = filter (\<lambda>x. \<not> is_fetch c x) (tasks s)"
    then show ?thesis
      by (intro exI [of _ "Error (''Recognition request failed with '' @ show_nat status)"]
          exI [of _ "s\<lparr>tasks := filter (\<lambda>x. \<not> is_fetch c x) (tasks s)\<rparr>"])
        (simp add: step_status Error_def)
  next
    assume "ev = Settle c (Fulfilled status (Inl msg))" "ok status"
      "fetch_task c (tasks s) = Some (l, t)"
      "rest = filter (\<lambda>x. \<not> is_fetch c x) (tasks s)"
    then show ?thesis
      by (intro exI [of _ "\<lparr>name = ''SyntaxError'', message = msg\<rparr>"]
          exI [of _ "s\<lparr>tasks := filter (\<lambda>x. \<not> is_fetch c x) (tasks s)\<rparr>"])
        (simp add: step_body)
  next
    assume b: "ev = Timeout h" "timer_task h (tasks s) = Some l" "l \<notin> set (cancelled s)"
      "fst (captureFrame_draw cam (canvas s)) = Inl e" "msg = message e"
      "rest = filter (\<lambda>x. \<not> is_timer h x) (tasks s)"
    show ?thesis
      using b(1,5,6) draw_error [OF b(4)]
      by (intro exI [of _ e]
          exI [of _ "s\<lparr>tasks := filter (\<lambda>x. \<not> is_timer h x) (tasks s),
                       ui := (ui s)\<lparr>isProcessing := True\<rparr>,
                       canvas := snd (captureFrame_draw cam (canvas s))\<rparr>"])
        (simp add: step_timeout_fails [OF b(2,3,4)])
  qed
  then obtain e0 s0 where st: "step api cam now ev s = catch_block e0 l s0"
    and n: "name e0 \<noteq> ''AbortError''"
    and f: "message e0 = msg" "tasks s0 = rest" "cancelled s0 = cancelled s"
      "fresh s0 = fresh s" "cleanup s0 = cleanup s" "fetched s0 = fetched s"
      "loopRef s0 = loopRef s" "isScanning (ui s0) = isScanning (ui s)"
      "matches (ui s0) = matches (ui s)" "lastUpdated (ui s0) = lastUpdated (ui s)"
      "latency (ui s0) = latency (ui s)"
    by blast
  show "let s' = step api cam now ev s in
        \<not> isProcessing (ui s')
      \<and> feedback (ui s') = (if msg = [] then ''Scan failed. Please try again.'' else msg)
      \<and> isScanning (ui s') = isScanning (ui s)
      \<and> matches (ui s') = matches (ui s)
      \<and> lastUpdated (ui s') = lastUpdated (ui s)
      \<and> latency (ui s') = latency (ui s)
      \<and> cleanup s' = cleanup s
      \<and> cancelled s' = cancelled s
      \<and> fetched s' = fetched s
      \<and> tasks s' =
          rest @ (if l \<in> set (cancelled s) then [] else [Timer (fresh s) l POLL_DELAY_MS])
      \<and> timers (tasks s') = timers rest @ (if l \<in> set (cancelled s) then [] else [fresh s])
      \<and> outstanding (tasks s') = outstanding rest
      \<and> loopRef s' = (if l \<in> set (cancelled s) then loopRef s else Some (fresh s))"
    unfolding Let_def st
    using catch_block_recovers [OF n, of l s0]
    by (simp add: f timers_append outstanding_append)
next
  assume a: "api \<noteq> None \<and> api \<noteq> Some [] \<and> streamReady (ui s) \<and> \<not> isScanning (ui s)
       \<and> cleanup s = None \<and> fresh s \<notin> set (cancelled s)
       \<and> fst (captureFrame_draw cam (canvas s)) = Inl e"
  then have d: "fst (captureFrame_draw cam (canvas s)) = Inl e" by simp
  have st: "step api cam now Click s =
     catch_block e (fresh s)
       (s\<lparr>fresh := Suc (fresh s),
          cleanup := Some (fresh s),
          ui := (ui s)\<lparr>feedback := [], isScanning := True, isProcessing := True\<rparr>,
          canvas := snd (captureFrame_draw cam (canvas s))\<rparr>)"
    using a by (intro step_start_fails) simp_all
  from draw_error [OF d] have n: "name e \<noteq> ''AbortError''" and m: "message e \<noteq> []"
    by simp_all
  show "let s' = step api cam now Click s in
        \<not> isProcessing (ui s')
      \<and> feedback (ui s') = message e
      \<and> isScanning (ui s')
      \<and> matches (ui s') = matches (ui s)
      \<and> lastUpdated (ui s') = lastUpdated (ui s)
      \<and> latency (ui s') = latency (ui s)
      \<and> cleanup s' = Some (fresh s)
      \<and> cancelled s' = cancelled s
      \<and> fetched s' = fetched s
      \<and> tasks s' = tasks s @ [Timer (Suc (fresh s)) (fresh s) POLL_DELAY_MS]
      \<and> loopRef s' = Some (Suc (fresh s))"
    unfolding Let_def st
    using a m catch_block_recovers [OF n, of "fresh s"
        "s\<lparr>fresh := Suc (fresh s),
          cleanup := Some (fresh s),
          ui := (ui s)\<lparr>feedback := [], isScanning := True, isProcessing := True\<rparr>,
          canvas := snd (captureFrame_draw cam (canvas s))\<rparr>"]
    by simp
next
  assume "fst (captureFrame_draw cam cv) = Inl e"
  then show "message e \<in> {''Camera is not ready yet.'',
                     ''Camera is warming up. Try again in a second.'',
                     ''Canvas context is unavailable.''}"
    by (auto simp add: captureFrame_draw_def Error_def Let_def split: if_splits)
qed (simp_all add: POLL_DELAY_MS_def ok_def show_nat.simps)

text \<open>
  The witness: scenario C of the specification, a response with status 503 to the
  request in flight, and a start of the loop while the video has no size yet.
\<close>

theorem failure_recovery_witness:
  "(let s' = step api_url cam_hd 100 (Settle 2 (Fulfilled 503 (Inl ''no body''))) in_flight in
      feedback (ui s') = ''Recognition request failed with 503''
    \<and> isScanning (ui s') \<and> \<not> isProcessing (ui s')
    \<and> tasks s' = [Timer 3 1 350] \<and> timers (tasks s') = [3] \<and> loopRef s' = Some 3
    \<and> fetched s' = 1)
   \<and> (let cam = \<lparr>video_mounted = True, canvas_mounted = True, videoWidth = 0,
                   videoHeight = 0, context_2d = True\<rparr>;
           s' = step api_url cam 10 Click (step api_url cam 0 CameraGranted init) in
      feedback (ui s') = ''Camera is warming up. Try again in a second.''
    \<and> isScanning (ui s') \<and> \<not> isProcessing (ui s')
    \<and> tasks s' = [Timer 2 1 350] \<and> loopRef s' = Some 2 \<and> fetched s' = 0)"
proof -
  let ?cam = "\<lparr>video_mounted = True, canvas_mounted = True, videoWidth = 0,
               videoHeight = 0, context_2d = True\<rparr>"
  let ?e = "Error ''Camera is warming up. Try again in a second.''"
  let ?s = "step api_url ?cam 0 CameraGranted init"
  have f: "cancelled in_flight = []" "fresh in_flight = 3" "isScanning (ui in_flight)"
    "fetched in_flight = 1" "tasks in_flight = [Fetch 2 1 15]"
    by (simp_all add: in_flight_eq)
  have g: "cancelled ?s = []" "fresh ?s = 1" "streamReady (ui ?s)" "\<not> isScanning (ui ?s)"
    "fetched ?s = 0" "tasks ?s = []" "cleanup ?s = None"
    by (simp_all add: step_def setters init_def)
  have a: "api_url \<noteq> None" "api_url \<noteq> Some []"
    by (simp_all add: api_url_def)
  have h1: "Settle 2 (Fulfilled 503 (Inl ''no body'')) = Settle 2 (Fulfilled 503 (Inl ''no body''))
      \<and> \<not> ok 503
      \<and> fetch_task 2 (tasks in_flight) = Some (1, 15)
      \<and> ''Recognition request failed with 503'' = ''Recognition request failed with '' @ show_nat 503
      \<and> [] = filter (\<lambda>x. \<not> is_fetch 2 x) (tasks in_flight)"
    by (simp add: f ok_def show_nat_examples)
  have h2: "api_url \<noteq> None \<and> api_url \<noteq> Some [] \<and> streamReady (ui ?s) \<and> \<not> isScanning (ui ?s)
       \<and> cleanup ?s = None \<and> fresh ?s \<notin> set (cancelled ?s)
       \<and> fst (captureFrame_draw ?cam (canvas ?s)) = Inl ?e"
    by (simp add: g a captureFrame_draw_def)
  note c1 = failure_recovery [where s = in_flight and l = 1 and c = 2 and t = 15
        and status = 503 and api = api_url and cam = cam_hd and now = 100
        and body = "Inl ''no body''" and ev = "Settle 2 (Fulfilled 503 (Inl ''no body''))"
        and msg = "''Recognition request failed with 503''" and rest = "[]" and h = 0
        and e = ?e and cv = "canvas init",
        THEN conjunct1, THEN mp, OF disjI2 [OF disjI2 [OF disjI1 [OF h1]]]]
  note c2 = failure_recovery [where s = ?s
        and api = api_url and cam = ?cam and now = 10 and e = ?e and ev = CameraGranted
        and cv = "canvas init" and l = 0 and msg = "[]" and rest = "[]" and c = 0 and t = 0
        and status = 0 and body = "Inl []" and h = 0,
        THEN conjunct2, THEN conjunct1, THEN mp, OF h2]
  from c1 have "let s' = step api_url cam_hd 100 (Settle 2 (Fulfilled 503 (Inl ''no body''))) in_flight in
      feedback (ui s') = ''Recognition request failed with 503''
    \<and> isScanning (ui s') \<and> \<not> isProcessing (ui s')
    \<and> tasks s' = [Timer 3 1 350] \<and> timers (tasks s') = [3] \<and> loopRef s' = Some 3
    \<and> fetched s' = 1"
    by (simp add: Let_def f POLL_DELAY_MS_def)
  moreover from c2 have "let s' = step api_url ?cam 10 Click ?s in
      feedback (ui s') = ''Camera is warming up. Try again in a second.''
    \<and> isScanning (ui s') \<and> \<not> isProcessing (ui s')
    \<and> tasks s' = [Timer 2 1 350] \<and> loopRef s' = Some 2 \<and> fetched s' = 0"
    by (simp add: Let_def g POLL_DELAY_MS_def Error_def)
  ultimately show ?thesis by (simp only: Let_def) simp
qed

lemma stale_state:
  "run api_url cam_hd [(0, CameraGranted), (10, Click), (12, Click), (14, Click)] init = \<lparr>
     ui = \<lparr>streamReady = True, isScanning = True, isProcessing = True, feedback = [],
           matches = [], videoSize = \<lparr>width = 0, height = 0\<rparr>, lastUpdated = None,
           latency = None\<rparr>,
     loopRef = None, abortRef = None, canvas = \<lparr>width = 640, height = 360\<rparr>,
     cancelled = [1], cleanup = Some 2, tasks = [Capture 1, Capture 2], fresh = 3,
     fetched = 0\<rparr>"
  by (simp add: api_url_def init_def step_def click_def toggleScanning_def
      effect_isScanning_def effect_running_def effect_cleanup_def effect_idle_def
      runLoop_def draw_hd setters Let_def cancelled_outcome_def)

lemma stopped_state:
  "run api_url cam_hd [(0, CameraGranted), (10, Click), (12, Click)] init = \<lparr>
     ui = \<lparr>streamReady = True, isScanning = False, isProcessing = False, feedback = [],
           matches = [], videoSize = \<lparr>width = 0, height = 0\<rparr>, lastUpdated = None,
           latency = None\<rparr>,
     loopRef = None, abortRef = None, canvas = \<lparr>width = 640, height = 360\<rparr>,
     cancelled = [1], cleanup = None, tasks = [Capture 1], fresh = 2,
     fetched = 0\<rparr>"
  by (simp add: api_url_def init_def step_def click_def toggleScanning_def
      effect_isScanning_def effect_running_def effect_cleanup_def effect_idle_def
      runLoop_def draw_hd setters Let_def cancelled_outcome_def)

text \<open>
  A cycle whose closure is cancelled: the loop is started, stopped and started again
  before \<open>toBlob\<close> has called back, and then the first \<open>toBlob\<close> gives no blob. The
  loop is running, the message is set and \<open>isProcessing\<close> is cleared, and no timer is
  added: the cycle that failed schedules no other cycle. With the start and the stop
  alone, the message is set while the loop is idle.
\<close>

theorem stale_failure_schedules_nothing:
  "(let s = run api_url cam_hd [(0, CameraGranted), (10, Click), (12, Click), (14, Click)] init;
        s' = step api_url cam_hd 15 (ToBlob 1 None) s
    in isScanning (ui s) \<and> tasks s = [Capture 1, Capture 2] \<and> cancelled s = [1]
       \<and> cleanup s = Some 2 \<and> feedback (ui s) = []
       \<and> feedback (ui s') = ''Unable to capture frame''
       \<and> isScanning (ui s') \<and> \<not> isProcessing (ui s')
       \<and> tasks s' = [Capture 2] \<and> timers (tasks s') = [] \<and> loopRef s' = None)
   \<and> (let s = run api_url cam_hd [(0, CameraGranted), (10, Click), (12, Click)] init;
          s' = step api_url cam_hd 15 (ToBlob 1 None) s
      in \<not> isScanning (ui s) \<and> tasks s = [Capture 1] \<and> cancelled s = [1]
         \<and> feedback (ui s') = ''Unable to capture frame''
         \<and> \<not> isScanning (ui s') \<and> tasks s' = [] \<and> loopRef s' = None)"
  unfolding stale_state stopped_state
  by (simp add: step_def runLoop_captured_def captureFrame_blob_def setters Let_def
      catch_block_def finally_block_def Error_def)


subsection \<open>Poll loop: a response without a detection list\<close>

text \<open>
  C5. A response with a 2xx status whose payload has no array under \<open>data\<close> ends the
  cycle as a success with an empty batch: \<open>matches\<close> is empty, the feedback is
  cleared, the latency and the time of the update are set. That is so for a payload
  that is \<open>null\<close>, that has no \<open>data\<close>, or whose \<open>data\<close> is \<open>null\<close>, a string, a
  number, a boolean or an object.
\<close>

theorem malformed_batch_tolerance:
  "(fetch_task c (tasks s) = Some (l, t) \<and> ok status
      \<and> \<not> Array_isArray (opt_prop payload ''data'') \<longrightarrow>
      (let s' = step api cam now (Settle c (Fulfilled status (Inr payload))) s in
         matches (ui s') = []
       \<and> feedback (ui s') = []
       \<and> lastUpdated (ui s') = Some now
       \<and> latency (ui s') = Some (now - t)
       \<and> \<not> isProcessing (ui s')
       \<and> isScanning (ui s') = isScanning (ui s)))
   \<and> detections JNull = []
   \<and> detections (JObj []) = []
   \<and> detections (JObj [(''data'', JNull)]) = []
   \<and> detections (JObj [(''data'', JStr x)]) = []
   \<and> detections (JObj [(''data'', JNum n)]) = []
   \<and> detections (JObj [(''data'', JBool b)]) = []
   \<and> detections (JObj [(''data'', JObj kvs)]) = []
   \<and> detections (JObj [(''data'', JArr xs)]) = xs"
proof (intro conjI impI)
  assume a: "fetch_task c (tasks s) = Some (l, t) \<and> ok status
      \<and> \<not> Array_isArray (opt_prop payload ''data'')"
  then have d: "detections payload = []" by (simp add: detections_def)
  from a show "let s' = step api cam now (Settle c (Fulfilled status (Inr payload))) s in
         matches (ui s') = []
       \<and> feedback (ui s') = []
       \<and> lastUpdated (ui s') = Some now
       \<and> latency (ui s') = Some (now - t)
       \<and> \<not> isProcessing (ui s')
       \<and> isScanning (ui s') = isScanning (ui s)"
    by (simp add: step_def runLoop_settled_def finally_block_def setters Let_def d)
qed (simp_all add: detections_def opt_prop_def Array_isArray_def)

theorem malformed_batch_tolerance_witness:
  "(let s' = step api_url cam_hd 100
               (Settle 2 (Fulfilled 200 (Inr (JObj [(''data'', JStr ''none'')])))) in_flight in
      matches (ui s') = [] \<and> feedback (ui s') = [] \<and> lastUpdated (ui s') = Some 100
    \<and> latency (ui s') = Some 85 \<and> \<not> isProcessing (ui s') \<and> isScanning (ui s'))"
  using malformed_batch_tolerance [where s = in_flight and l = 1 and c = 2 and t = 15
      and status = 200 and api = api_url and cam = cam_hd and now = 100
      and payload = "JObj [(''data'', JStr ''none'')]"]
  by (simp add: in_flight_eq Let_def ok_def opt_prop_def Array_isArray_def)


subsection \<open>Every pending task belongs to the mounted closure or to a cancelled one\<close>

lemma owned_mem:
  "owned s \<Longrightarrow> x \<in> set (tasks s) \<Longrightarrow> owner x \<in> set (cancelled s) \<or> cleanup s = Some (owner x)"
  by (auto simp add: owned_def list_all_iff)

lemma owned_ui [simp]: "owned (s\<lparr>ui := u\<rparr>) = owned s"
  by (simp add: owned_def)

lemma owned_sub:
  "owned s \<Longrightarrow> set ts \<subseteq> set (tasks s) \<Longrightarrow> owned (s\<lparr>tasks := ts\<rparr>)"
  by (auto simp add: owned_def list_all_iff)

lemma fetch_task_mem: "fetch_task c ts = Some (l, t) \<Longrightarrow> Fetch c l t \<in> set ts"
  by (induction c ts rule: fetch_task.induct) (auto split: if_splits)

lemma timer_task_mem: "timer_task h ts = Some l \<Longrightarrow> \<exists>d. Timer h l d \<in> set ts"
  by (induction h ts rule: timer_task.induct) (auto split: if_splits)

lemma owned_finally:
  "owned s \<Longrightarrow> l \<in> set (cancelled s) \<or> cleanup s = Some l \<Longrightarrow> owned (finally_block l s)"
  by (auto simp add: owned_def finally_block_def setters Let_def list_all_iff)

lemma owned_catch:
  "owned s \<Longrightarrow> l \<in> set (cancelled s) \<or> cleanup s = Some l \<Longrightarrow> owned (catch_block e l s)"
  by (simp add: catch_block_def owned_finally setters)

lemma catch_frame [simp]:
  "cancelled (catch_block e l s) = cancelled s" "cleanup (catch_block e l s) = cleanup s"
  by (simp_all add: catch_block_def finally_block_def setters Let_def)

lemma owned_runLoop:
  "owned s \<Longrightarrow> l \<in> set (cancelled s) \<or> cleanup s = Some l \<Longrightarrow> owned (runLoop cam l s)"
proof -
  assume o: "owned s" and l: "l \<in> set (cancelled s) \<or> cleanup s = Some l"
  obtain r cv where d: "captureFrame_draw cam (canvas s) = (r, cv)" by force
  have c: "owned (s\<lparr>ui := u, canvas := cv\<rparr>)" for u
    using o by (simp add: owned_def)
  show ?thesis
  proof (cases r)
    case (Inl e)
    then show ?thesis
      using d l c o by (auto simp add: runLoop_def setters Let_def intro!: owned_catch)
  next
    case (Inr u)
    then show ?thesis
      using d l o by (auto simp add: runLoop_def setters Let_def owned_def list_all_iff)
  qed
qed

lemma owned_captured:
  "owned s \<Longrightarrow> l \<in> set (cancelled s) \<or> cleanup s = Some l \<Longrightarrow>
   owned (runLoop_captured now b l s)"
  by (cases b)
    (auto simp add: runLoop_captured_def captureFrame_blob_def setters Let_def owned_def
      list_all_iff Error_def catch_block_def finally_block_def)

lemma owned_settled:
  "owned s \<Longrightarrow> l \<in> set (cancelled s) \<or> cleanup s = Some l \<Longrightarrow>
   owned (runLoop_settled now r t l s)"
  by (auto simp add: runLoop_settled_def setters owned_catch owned_finally
      split: settled.splits sum.splits)


lemma fetch_task_filter_timer:
  "fetch_task c (filter (\<lambda>x. \<not> is_timer h x) ts) = fetch_task c ts"
  by (induction c ts rule: fetch_task.induct) simp_all

lemma abort_result:
  "abort c s =
     (s\<lparr>tasks := filter (\<lambda>x. \<not> is_fetch c x) (tasks s)\<rparr>, map_option fst (fetch_task c (tasks s)))"
proof (cases "fetch_task c (tasks s)")
  case None
  have "filter (\<lambda>x. \<not> is_fetch c x) ts = ts" if "fetch_task c ts = None" for ts
    using that by (induction c ts rule: fetch_task.induct) (simp_all split: if_splits)
  with None show ?thesis by (simp add: abort_def)
next
  case (Some p)
  then show ?thesis by (cases p) (simp add: abort_def)
qed

text \<open>The requests and timers that a teardown leaves pending.\<close>

lemma effect_cleanup_result:
  "effect_cleanup l s =
     (s\<lparr>cancelled := l # cancelled s, loopRef := None, abortRef := None,
        tasks := filter (\<lambda>x. \<not> (\<exists>c. abortRef s = Some c \<and> is_fetch c x))
                   (filter (\<lambda>x. \<not> (\<exists>h. loopRef s = Some h \<and> is_timer h x)) (tasks s))\<rparr>,
      case abortRef s of None \<Rightarrow> None | Some c \<Rightarrow> map_option fst (fetch_task c (tasks s)))"
  by (cases "loopRef s"; cases "abortRef s")
    (simp_all add: effect_cleanup_def abort_result clearTimeout_def fetch_task_filter_timer)

lemma effect_idle_result:
  "effect_idle s =
     (s\<lparr>ui := (ui s)\<lparr>isProcessing := False\<rparr>, loopRef := None, abortRef := None,
        cleanup := None,
        tasks := filter (\<lambda>x. \<not> (\<exists>c. abortRef s = Some c \<and> is_fetch c x))
                   (filter (\<lambda>x. \<not> (\<exists>h. loopRef s = Some h \<and> is_timer h x)) (tasks s))\<rparr>,
      case abortRef s of None \<Rightarrow> None | Some c \<Rightarrow> map_option fst (fetch_task c (tasks s)))"
  by (cases "loopRef s"; cases "abortRef s")
    (simp_all add: effect_idle_def abort_result clearTimeout_def fetch_task_filter_timer setters)


lemma cancelled_outcome_cancelled:
  "(\<And>l. a = Some l \<Longrightarrow> l \<in> set (cancelled s)) \<Longrightarrow>
   cancelled_outcome a s = (if a = None then s else s\<lparr>ui := (ui s)\<lparr>isProcessing := False\<rparr>\<rparr>)"
  by (cases a)
    (simp_all add: cancelled_outcome_def catch_block_def AbortError_def finally_block_cancelled)

lemma aborted_owner:
  assumes "owned s" and "cleanup s = Some l"
    and "(case abortRef s of None \<Rightarrow> None | Some c \<Rightarrow> map_option fst (fetch_task c (tasks s))) = Some l'"
  shows "l' = l \<or> l' \<in> set (cancelled s)"
proof -
  from assms(3) obtain c t where "fetch_task c (tasks s) = Some (l', t)"
    by (auto split: option.splits)
  then have "Fetch c l' t \<in> set (tasks s)" by (rule fetch_task_mem)
  from owned_mem [OF assms(1) this] assms(2) show ?thesis by auto
qed

lemma stop_result:
  assumes "api \<noteq> None" and "api \<noteq> Some []" and "streamReady (ui s)" and "isScanning (ui s)"
    and "cleanup s = Some l" and "owned s"
  shows "click api cam s =
     s\<lparr>cancelled := l # cancelled s,
       ui := (ui s)\<lparr>feedback := [], isScanning := False, isProcessing := False\<rparr>,
       loopRef := None, abortRef := None, cleanup := None,
       tasks := filter (\<lambda>x. \<not> (\<exists>c. abortRef s = Some c \<and> is_fetch c x))
                  (filter (\<lambda>x. \<not> (\<exists>h. loopRef s = Some h \<and> is_timer h x)) (tasks s))\<rparr>"
proof -
  let ?a = "case abortRef s of None \<Rightarrow> None | Some c \<Rightarrow> map_option fst (fetch_task c (tasks s))"
  let ?s2 = "s\<lparr>cancelled := l # cancelled s,
       ui := (ui s)\<lparr>feedback := [], isScanning := False, isProcessing := False\<rparr>,
       loopRef := None, abortRef := None, cleanup := None,
       tasks := filter (\<lambda>x. \<not> (\<exists>c. abortRef s = Some c \<and> is_fetch c x))
                  (filter (\<lambda>x. \<not> (\<exists>h. loopRef s = Some h \<and> is_timer h x)) (tasks s))\<rparr>"
  have t: "toggleScanning api s = s\<lparr>ui := (ui s)\<lparr>feedback := [], isScanning := False\<rparr>\<rparr>"
    using assms(1-4) by (simp add: toggleScanning_def setters)
  have o: "cancelled_outcome ?a ?s2 = ?s2"
  proof -
    have "l' \<in> set (cancelled ?s2)" if "?a = Some l'" for l'
      using aborted_owner [OF assms(6,5) that] by auto
    then have "cancelled_outcome ?a ?s2 =
        (if ?a = None then ?s2 else ?s2\<lparr>ui := (ui ?s2)\<lparr>isProcessing := False\<rparr>\<rparr>)"
      by (rule cancelled_outcome_cancelled)
    then show ?thesis by simp
  qed
  have e: "effect_isScanning cam (s\<lparr>ui := (ui s)\<lparr>feedback := [], isScanning := False\<rparr>\<rparr>)
      = cancelled_outcome None (cancelled_outcome ?a ?s2)"
    using assms(5)
    by (simp add: effect_isScanning_def effect_cleanup_result effect_idle_result
        cong: option.case_cong)
  have n: "cancelled_outcome None x = x" for x
    by (simp add: cancelled_outcome_def)
  have "click api cam s = effect_isScanning cam (toggleScanning api s)"
    using assms(4) by (simp add: click_def t)
  also have "\<dots> = cancelled_outcome None (cancelled_outcome ?a ?s2)"
    unfolding t by (rule e)
  also have "\<dots> = cancelled_outcome ?a ?s2"
    by (rule n)
  also have "\<dots> = ?s2"
    by (rule o)
  finally show ?thesis .
qed


lemma finally_frame [simp]:
  "isScanning (ui (finally_block l s)) = isScanning (ui s)"
  "cleanup (finally_block l s) = cleanup s"
  "cancelled (finally_block l s) = cancelled s"
  by (simp_all add: finally_block_def setters Let_def)

lemma catch_scanning [simp]: "isScanning (ui (catch_block e l s)) = isScanning (ui s)"
  by (simp add: catch_block_def setters)

lemma runLoop_frame [simp]:
  "isScanning (ui (runLoop cam l s)) = isScanning (ui s)"
  "cleanup (runLoop cam l s) = cleanup s"
  "cancelled (runLoop cam l s) = cancelled s"
  by (simp_all add: runLoop_def setters Let_def split: prod.splits sum.splits)

lemma captured_frame [simp]:
  "isScanning (ui (runLoop_captured now b l s)) = isScanning (ui s)"
  "cleanup (runLoop_captured now b l s) = cleanup s"
  "cancelled (runLoop_captured now b l s) = cancelled s"
  by (simp_all add: runLoop_captured_def setters Let_def split: sum.splits)

lemma settled_frame [simp]:
  "isScanning (ui (runLoop_settled now r t l s)) = isScanning (ui s)"
  "cleanup (runLoop_settled now r t l s) = cleanup s"
  "cancelled (runLoop_settled now r t l s) = cancelled s"
  by (simp_all add: runLoop_settled_def setters split: settled.splits sum.splits)

lemma consistent_init: "consistent init"
  by (simp add: consistent_def owned_def init_def)

lemma consistent_start:
  assumes "consistent s" and "\<not> isScanning (ui s)"
  shows "consistent (effect_isScanning cam (s\<lparr>ui := (ui s)\<lparr>feedback := [], isScanning := True\<rparr>\<rparr>))"
proof -
  from assms have c: "cleanup s = None" and o: "owned s"
    by (simp_all add: consistent_def)
  let ?s = "s\<lparr>ui := (ui s)\<lparr>feedback := [], isScanning := True\<rparr>, fresh := Suc (fresh s),
               cleanup := Some (fresh s)\<rparr>"
  have "owned ?s"
    using o c by (auto simp add: owned_def list_all_iff)
  then have "owned (runLoop cam (fresh s) ?s)"
    by (rule owned_runLoop) simp
  then show ?thesis
    using c by (simp add: effect_isScanning_def effect_running_def cancelled_outcome_def
        consistent_def Let_def)
qed

lemma consistent_click: "consistent s \<Longrightarrow> consistent (click api cam s)"
proof -
  assume c: "consistent s"
  consider (blocked) "api = None \<or> api = Some [] \<or> \<not> streamReady (ui s)"
    | (start) "api \<noteq> None" "api \<noteq> Some []" "streamReady (ui s)" "\<not> isScanning (ui s)"
    | (stop) "api \<noteq> None" "api \<noteq> Some []" "streamReady (ui s)" "isScanning (ui s)"
    by blast
  then show ?thesis
  proof cases
    case blocked
    then show ?thesis
      using c by (auto simp add: click_def toggleScanning_def setters consistent_def)
  next
    case start
    then have "click api cam s =
        effect_isScanning cam (s\<lparr>ui := (ui s)\<lparr>feedback := [], isScanning := True\<rparr>\<rparr>)"
      by (cases api) (simp_all add: click_def toggleScanning_def setters)
    then show ?thesis
      using consistent_start [OF c start(4)] by simp
  next
    case stop
    with c obtain l where l: "cleanup s = Some l" and o: "owned s"
      by (auto simp add: consistent_def)
    show ?thesis
      unfolding stop_result [OF stop l o]
      using o l by (auto simp add: consistent_def owned_def list_all_iff)
  qed
qed

lemma consistent_step: "consistent s \<Longrightarrow> consistent (step api cam now ev s)"
proof (cases ev)
  case Click
  assume "consistent s"
  then show ?thesis by (simp add: step_def Click consistent_click)
next
  case (ToBlob l b)
  assume c: "consistent s"
  show ?thesis
  proof (cases "Capture l \<in> set (tasks s)")
    case True
    from c have o: "owned s" by (simp add: consistent_def)
    from owned_mem [OF o True] have ow: "l \<in> set (cancelled s) \<or> cleanup s = Some l" by simp
    have "owned (s\<lparr>tasks := remove1 (Capture l) (tasks s)\<rparr>)"
      using o by (rule owned_sub) (simp add: set_remove1_subset)
    then have "owned (runLoop_captured now b l (s\<lparr>tasks := remove1 (Capture l) (tasks s)\<rparr>))"
      by (rule owned_captured) (use ow in simp)
    then show ?thesis
      using c True by (simp add: step_def ToBlob consistent_def)
  next
    case False
    then show ?thesis using c by (simp add: step_def ToBlob)
  qed
next
  case (Settle k r)
  assume c: "consistent s"
  show ?thesis
  proof (cases "fetch_task k (tasks s)")
    case None
    then show ?thesis using c by (simp add: step_def Settle)
  next
    case (Some p)
    obtain l t where p: "p = (l, t)" by (cases p)
    from c have o: "owned s" by (simp add: consistent_def)
    from owned_mem [OF o fetch_task_mem] Some p
    have ow: "l \<in> set (cancelled s) \<or> cleanup s = Some l" by fastforce
    have "owned (s\<lparr>tasks := filter (\<lambda>x. \<not> is_fetch k x) (tasks s)\<rparr>)"
      using o by (rule owned_sub) simp
    then have "owned (runLoop_settled now r t l (s\<lparr>tasks := filter (\<lambda>x. \<not> is_fetch k x) (tasks s)\<rparr>))"
      by (rule owned_settled) (use ow in simp)
    then show ?thesis
      using c Some p by (simp add: step_def Settle consistent_def)
  qed
next
  case (Timeout h)
  assume c: "consistent s"
  show ?thesis
  proof (cases "timer_task h (tasks s)")
    case None
    then show ?thesis using c by (simp add: step_def Timeout)
  next
    case (Some l)
    from c have o: "owned s" by (simp add: consistent_def)
    from timer_task_mem [OF Some] obtain d where "Timer h l d \<in> set (tasks s)" by blast
    from owned_mem [OF o this] have ow: "l \<in> set (cancelled s) \<or> cleanup s = Some l" by simp
    have "owned (s\<lparr>tasks := filter (\<lambda>x. \<not> is_timer h x) (tasks s)\<rparr>)"
      using o by (rule owned_sub) simp
    then have "owned (runLoop cam l (s\<lparr>tasks := filter (\<lambda>x. \<not> is_timer h x) (tasks s)\<rparr>))"
      by (rule owned_runLoop) (use ow in simp)
    then show ?thesis
      using c Some by (simp add: step_def Timeout consistent_def)
  qed
next
  case CameraGranted
  assume "consistent s"
  then show ?thesis by (simp add: step_def CameraGranted consistent_def setters)
next
  case (CameraDenied m)
  assume "consistent s"
  then show ?thesis by (simp add: step_def CameraDenied consistent_def setters)
next
  case LoadedMetadata
  assume "consistent s"
  then show ?thesis by (simp add: step_def LoadedMetadata consistent_def setters)
qed

lemma consistent_run: "consistent s \<Longrightarrow> consistent (run api cam evs s)"
  by (induction api cam evs s rule: run.induct) (simp_all add: consistent_step)


lemma outstanding_teardown:
  "outstanding (filter (\<lambda>x. \<not> (\<exists>c. A = Some c \<and> is_fetch c x))
      (filter (\<lambda>x. \<not> (\<exists>h. B = Some h \<and> is_timer h x)) ts))
   = filter (\<lambda>c. A \<noteq> Some c) (outstanding ts)"
  by (induction ts rule: outstanding.induct) auto

lemma timers_teardown:
  "timers (filter (\<lambda>x. \<not> (\<exists>c. A = Some c \<and> is_fetch c x))
      (filter (\<lambda>x. \<not> (\<exists>h. B = Some h \<and> is_timer h x)) ts))
   = filter (\<lambda>h. B \<noteq> Some h) (timers ts)"
  by (induction ts rule: timers.induct) auto

lemma consistent_in_flight: "consistent in_flight"
  unfolding in_flight_def by (rule consistent_run [OF consistent_init])

text \<open>
  What the teardown does. A click while scanning, in any state the component can be
  in, is one step that sets \<open>isScanning\<close> and \<open>isProcessing\<close> to false, cancels the
  closure, empties \<open>loopRef\<close> and \<open>abortRef\<close>, takes the request held by \<open>abortRef\<close> off
  the network and the timer held by \<open>loopRef\<close> off the timers, and starts nothing: no
  call of \<open>fetch\<close> and no new handle. A request that \<open>abortRef\<close> does not hold stays in
  flight.
\<close>

lemma stop_teardown:
  assumes "api \<noteq> None" and "api \<noteq> Some []" and "streamReady (ui s)"
    and "isScanning (ui s)" and "cleanup s = Some l" and "consistent s"
  shows "let s' = step api cam now Click s in
           \<not> isScanning (ui s') \<and> \<not> isProcessing (ui s')
         \<and> loopRef s' = None \<and> abortRef s' = None \<and> cleanup s' = None
         \<and> cancelled s' = l # cancelled s
         \<and> outstanding (tasks s') = filter (\<lambda>c. abortRef s \<noteq> Some c) (outstanding (tasks s))
         \<and> timers (tasks s') = filter (\<lambda>h. loopRef s \<noteq> Some h) (timers (tasks s))
         \<and> fetched s' = fetched s \<and> fresh s' = fresh s
         \<and> matches (ui s') = matches (ui s) \<and> lastUpdated (ui s') = lastUpdated (ui s)
         \<and> feedback (ui s') = []"
proof -
  from assms(6) have o: "owned s" by (simp add: consistent_def)
  note r = stop_result [OF assms(1-5) o, of cam]
  have ts: "tasks (click api cam s) =
      filter (\<lambda>x. \<not> (\<exists>c. abortRef s = Some c \<and> is_fetch c x))
        (filter (\<lambda>x. \<not> (\<exists>h. loopRef s = Some h \<and> is_timer h x)) (tasks s))"
    by (simp add: r)
  have out: "outstanding (tasks (click api cam s)) =
      filter (\<lambda>c. abortRef s \<noteq> Some c) (outstanding (tasks s))"
    by (simp only: ts outstanding_teardown)
  have tim: "timers (tasks (click api cam s)) =
      filter (\<lambda>h. loopRef s \<noteq> Some h) (timers (tasks s))"
    by (simp only: ts timers_teardown)
  have rest: "\<not> isScanning (ui (click api cam s))" "\<not> isProcessing (ui (click api cam s))"
    "loopRef (click api cam s) = None" "abortRef (click api cam s) = None"
    "cleanup (click api cam s) = None" "cancelled (click api cam s) = l # cancelled s"
    "fetched (click api cam s) = fetched s" "fresh (click api cam s) = fresh s"
    "matches (ui (click api cam s)) = matches (ui s)"
    "lastUpdated (ui (click api cam s)) = lastUpdated (ui s)"
    "feedback (ui (click api cam s)) = []"
    by (simp_all add: r)
  have "step api cam now Click s = click api cam s"
    by (simp add: step_def)
  with out tim rest show ?thesis
    by (simp add: Let_def)
qed

lemma stop_teardown_example:
  "(let s' = step api_url cam_hd 200 Click in_flight in
      \<not> isScanning (ui s') \<and> \<not> isProcessing (ui s') \<and> loopRef s' = None \<and> abortRef s' = None
    \<and> outstanding (tasks s') = [] \<and> timers (tasks s') = [] \<and> cancelled s' = [1]
    \<and> fetched s' = 1)
   \<and> outstanding (tasks in_flight) = [2] \<and> abortRef in_flight = Some 2"
  using stop_teardown [where s = in_flight and api = api_url and l = 1 and cam = cam_hd
      and now = 200] consistent_in_flight
  by (simp add: in_flight_eq api_url_def Let_def)


text \<open>
  C2. The outcome of an aborted request (\<open>cancelled_outcome\<close>: the \<open>catch\<close> block returns
  on \<open>AbortError\<close>, then the \<open>finally\<close> block runs) leaves \<open>matches\<close>, the feedback,
  the time of the last update, the latency, the video size and \<open>isScanning\<close> as they
  were; the only state it writes is \<open>isProcessing := false\<close>. The steps of the cycle
  before it, the start of \<open>runLoop\<close> and the sending of the request, leave \<open>matches\<close>,
  the feedback and the time of the last update as they were too. A request is aborted
  only by the teardown of a click that stops the scan, and there the outcome is
  handled after the teardown has cancelled the closure and reset \<open>isProcessing\<close>: the
  state after the outcome is the state before it.
\<close>

theorem cancelled_outcome_discarded:
  "ui (cancelled_outcome (Some l) s) = (ui s)\<lparr>isProcessing := False\<rparr>
   \<and> matches (ui (cancelled_outcome (Some l) s)) = matches (ui s)
   \<and> feedback (ui (cancelled_outcome (Some l) s)) = feedback (ui s)
   \<and> lastUpdated (ui (cancelled_outcome (Some l) s)) = lastUpdated (ui s)
   \<and> latency (ui (cancelled_outcome (Some l) s)) = latency (ui s)
   \<and> videoSize (ui (cancelled_outcome (Some l) s)) = videoSize (ui s)
   \<and> isScanning (ui (cancelled_outcome (Some l) s)) = isScanning (ui s)
   \<and> (captureFrame_draw cam (canvas s) = (Inr u, cv) \<longrightarrow>
        matches (ui (runLoop cam l s)) = matches (ui s)
        \<and> feedback (ui (runLoop cam l s)) = feedback (ui s)
        \<and> lastUpdated (ui (runLoop cam l s)) = lastUpdated (ui s))
   \<and> matches (ui (runLoop_captured now (Some bl) l s)) = matches (ui s)
   \<and> feedback (ui (runLoop_captured now (Some bl) l s)) = feedback (ui s)
   \<and> lastUpdated (ui (runLoop_captured now (Some bl) l s)) = lastUpdated (ui s)
   \<and> (l \<in> set (cancelled s) \<and> \<not> isProcessing (ui s) \<longrightarrow> cancelled_outcome (Some l) s = s)
   \<and> (api \<noteq> None \<and> api \<noteq> Some [] \<and> streamReady (ui s) \<and> isScanning (ui s)
        \<and> cleanup s = Some l \<and> consistent s
        \<and> abortRef s = Some c \<and> fetch_task c (tasks s) = Some (l', t) \<longrightarrow>
        snd (effect_cleanup l (toggleScanning api s)) = Some l'
        \<and> l' \<in> set (cancelled (fst (effect_idle (fst (effect_cleanup l (toggleScanning api s))))))
        \<and> \<not> isProcessing (ui (fst (effect_idle (fst (effect_cleanup l (toggleScanning api s))))))
        \<and> step api cam now Click s
            = cancelled_outcome (Some l')
                (fst (effect_idle (fst (effect_cleanup l (toggleScanning api s)))))
        \<and> step api cam now Click s
            = fst (effect_idle (fst (effect_cleanup l (toggleScanning api s))))
        \<and> matches (ui (step api cam now Click s)) = matches (ui s)
        \<and> lastUpdated (ui (step api cam now Click s)) = lastUpdated (ui s))"
proof (intro conjI impI)
  show u: "ui (cancelled_outcome (Some l) s) = (ui s)\<lparr>isProcessing := False\<rparr>"
    by (simp add: cancelled_outcome_def catch_block_def AbortError_def finally_block_def
        setters Let_def)
  show "matches (ui (cancelled_outcome (Some l) s)) = matches (ui s)"
    "feedback (ui (cancelled_outcome (Some l) s)) = feedback (ui s)"
    "lastUpdated (ui (cancelled_outcome (Some l) s)) = lastUpdated (ui s)"
    "latency (ui (cancelled_outcome (Some l) s)) = latency (ui s)"
    "videoSize (ui (cancelled_outcome (Some l) s)) = videoSize (ui s)"
    "isScanning (ui (cancelled_outcome (Some l) s)) = isScanning (ui s)"
    by (simp_all add: u)
  show "matches (ui (runLoop_captured now (Some bl) l s)) = matches (ui s)"
    "feedback (ui (runLoop_captured now (Some bl) l s)) = feedback (ui s)"
    "lastUpdated (ui (runLoop_captured now (Some bl) l s)) = lastUpdated (ui s)"
    by (simp_all add: runLoop_captured_def captureFrame_blob_def setters Let_def)
next
  assume "captureFrame_draw cam (canvas s) = (Inr u, cv)"
  then show "matches (ui (runLoop cam l s)) = matches (ui s)"
    "feedback (ui (runLoop cam l s)) = feedback (ui s)"
    "lastUpdated (ui (runLoop cam l s)) = lastUpdated (ui s)"
    by (simp_all add: runLoop_def setters Let_def)
next
  assume "l \<in> set (cancelled s) \<and> \<not> isProcessing (ui s)"
  then show "cancelled_outcome (Some l) s = s"
    by (simp add: cancelled_outcome_def catch_block_def AbortError_def finally_block_cancelled)
next
  assume a: "api \<noteq> None \<and> api \<noteq> Some [] \<and> streamReady (ui s) \<and> isScanning (ui s)
        \<and> cleanup s = Some l \<and> consistent s
        \<and> abortRef s = Some c \<and> fetch_task c (tasks s) = Some (l', t)"
  then have o: "owned s" by (simp add: consistent_def)
  from a have t: "toggleScanning api s = s\<lparr>ui := (ui s)\<lparr>feedback := [], isScanning := False\<rparr>\<rparr>"
    by (simp add: toggleScanning_def setters)
  let ?s2 = "fst (effect_idle (fst (effect_cleanup l (toggleScanning api s))))"
  from a show a1: "snd (effect_cleanup l (toggleScanning api s)) = Some l'"
    by (simp add: t effect_cleanup_result)
  have "Fetch c l' t \<in> set (tasks s)"
    using a by (intro fetch_task_mem) simp
  from owned_mem [OF o this] a have "l' = l \<or> l' \<in> set (cancelled s)"
    by auto
  then show c: "l' \<in> set (cancelled ?s2)"
    by (auto simp add: t effect_cleanup_result effect_idle_result)
  show p: "\<not> isProcessing (ui ?s2)"
    by (simp add: t effect_cleanup_result effect_idle_result)
  have r: "click api cam s = ?s2"
    using a o by (simp add: stop_result t effect_cleanup_result effect_idle_result)
  then show e: "step api cam now Click s = ?s2"
    by (simp add: step_def)
  have "cancelled_outcome (Some l') ?s2 = ?s2"
    using c p
    by (simp add: cancelled_outcome_def catch_block_def AbortError_def finally_block_cancelled)
  with e show "step api cam now Click s = cancelled_outcome (Some l') ?s2"
    by simp
  show "matches (ui (step api cam now Click s)) = matches (ui s)"
    "lastUpdated (ui (step api cam now Click s)) = lastUpdated (ui s)"
    using a o by (simp_all add: step_def stop_result)
qed

theorem cancelled_outcome_discarded_witness:
  "step api_url cam_hd 200 Click in_flight
     = cancelled_outcome (Some 1)
         (fst (effect_idle (fst (effect_cleanup 1 (toggleScanning api_url in_flight)))))
   \<and> step api_url cam_hd 200 Click in_flight
     = fst (effect_idle (fst (effect_cleanup 1 (toggleScanning api_url in_flight))))
   \<and> snd (effect_cleanup 1 (toggleScanning api_url in_flight)) = Some 1
   \<and> matches (ui (step api_url cam_hd 200 Click in_flight)) = matches (ui in_flight)
   \<and> lastUpdated (ui (step api_url cam_hd 200 Click in_flight)) = lastUpdated (ui in_flight)
   \<and> outstanding (tasks in_flight) = [2]"
proof -
  have h: "api_url \<noteq> None \<and> api_url \<noteq> Some [] \<and> streamReady (ui in_flight)
      \<and> isScanning (ui in_flight) \<and> cleanup in_flight = Some 1 \<and> consistent in_flight
      \<and> abortRef in_flight = Some 2 \<and> fetch_task 2 (tasks in_flight) = Some (1, 15)"
    using consistent_in_flight by (simp add: in_flight_eq api_url_def)
  have o: "outstanding (tasks in_flight) = [2]"
    by (simp add: in_flight_eq)
  show ?thesis
    using cancelled_outcome_discarded [where s = in_flight and api = api_url and l = 1
      and l' = 1 and c = 2 and t = 15 and cam = cam_hd and now = 200] h o
    by blast
qed


subsection \<open>Poll loop: single flight\<close>

text \<open>
  Between two clicks the cycles are in sequence: if at most one of a capture, a request
  and a timer is pending, the same holds after any event other than a click.
\<close>

lemma finally_tasks: "length (tasks (finally_block l s)) \<le> Suc (length (tasks s))"
  by (simp add: finally_block_def setters Let_def)

lemma catch_tasks: "length (tasks (catch_block e l s)) \<le> Suc (length (tasks s))"
  by (simp add: catch_block_def finally_block_def setters Let_def)

lemma runLoop_tasks: "length (tasks (runLoop cam l s)) \<le> Suc (length (tasks s))"
proof -
  obtain r cv where d: "captureFrame_draw cam (canvas s) = (r, cv)" by force
  show ?thesis
    using catch_tasks [of _ l "s\<lparr>ui := (ui s)\<lparr>isProcessing := True\<rparr>, canvas := cv\<rparr>"]
    by (cases r) (simp_all add: runLoop_def d setters Let_def)
qed

lemma captured_tasks: "length (tasks (runLoop_captured now b l s)) \<le> Suc (length (tasks s))"
  using catch_tasks [of _ l s]
  by (cases b) (simp_all add: runLoop_captured_def captureFrame_blob_def setters Let_def)

lemma settled_tasks: "length (tasks (runLoop_settled now r t l s)) \<le> Suc (length (tasks s))"
  using catch_tasks [of _ l s]
    finally_tasks [of l "setFeedback []
                     (setLastUpdated (Some now)
                       (setLatency (Some (now - t))
                         (setMatches (detections payload) s)))" for payload]
  by (auto simp add: runLoop_settled_def setters split: settled.splits sum.splits)

lemma one_task: "length ts \<le> Suc 0 \<Longrightarrow> x \<in> set ts \<Longrightarrow> ts = [x]"
  by (cases ts) auto

lemma sequential_between_clicks:
  assumes "length (tasks s) \<le> 1" and "ev \<noteq> Click"
  shows "length (tasks (step api cam now ev s)) \<le> 1"
proof (cases ev)
  case Click
  with assms(2) show ?thesis by simp
next
  case (ToBlob l b)
  show ?thesis
  proof (cases "Capture l \<in> set (tasks s)")
    case True
    with assms(1) have "tasks s = [Capture l]" by (simp add: one_task)
    then show ?thesis
      using captured_tasks [of now b l "s\<lparr>tasks := []\<rparr>"] by (simp add: step_def ToBlob)
  next
    case False
    with assms(1) show ?thesis by (simp add: step_def ToBlob)
  qed
next
  case (Settle c r)
  show ?thesis
  proof (cases "fetch_task c (tasks s)")
    case None
    with assms(1) show ?thesis by (simp add: step_def Settle)
  next
    case (Some p)
    obtain l t where p: "p = (l, t)" by (cases p)
    from Some p have "Fetch c l t \<in> set (tasks s)" by (simp add: fetch_task_mem)
    with assms(1) have "tasks s = [Fetch c l t]" by (simp add: one_task)
    then show ?thesis
      using settled_tasks [of now r t l "s\<lparr>tasks := []\<rparr>"] by (simp add: step_def Settle)
  qed
next
  case (Timeout h)
  show ?thesis
  proof (cases "timer_task h (tasks s)")
    case None
    with assms(1) show ?thesis by (simp add: step_def Timeout)
  next
    case (Some l)
    then obtain d where "Timer h l d \<in> set (tasks s)" using timer_task_mem by blast
    with assms(1) have "tasks s = [Timer h l d]" by (simp add: one_task)
    then show ?thesis
      using runLoop_tasks [of cam l "s\<lparr>tasks := []\<rparr>"] by (simp add: step_def Timeout)
  qed
next
  case CameraGranted
  with assms(1) show ?thesis by (simp add: step_def setters)
next
  case (CameraDenied m)
  with assms(1) show ?thesis by (simp add: step_def setters)
next
  case LoadedMetadata
  with assms(1) show ?thesis by (simp add: step_def setters)
qed

lemma outstanding_length: "length (outstanding ts) \<le> length ts"
  by (induction ts rule: outstanding.induct) simp_all

lemma single_flight_between_clicks:
  assumes "length (tasks s) \<le> 1" and "ev \<noteq> Click"
  shows "length (outstanding (tasks (step api cam now ev s))) \<le> 1"
  using sequential_between_clicks [OF assms, of api cam now]
    outstanding_length [of "tasks (step api cam now ev s)"]
  by linarith

lemmas loop_defs = step_def click_def toggleScanning_def effect_isScanning_def
  effect_running_def effect_cleanup_result effect_idle_result cancelled_outcome_def
  runLoop_def runLoop_captured_def runLoop_settled_def captureFrame_blob_def draw_hd
  catch_block_def finally_block_def setters Let_def

lemma race_state:
  "run api_url cam_hd race init = \<lparr>
     ui = \<lparr>streamReady = True, isScanning = True, isProcessing = True, feedback = [],
           matches = [], videoSize = \<lparr>width = 640, height = 360\<rparr>, lastUpdated = None,
           latency = None\<rparr>,
     loopRef = None, abortRef = Some 4, canvas = \<lparr>width = 640, height = 360\<rparr>,
     cancelled = [1], cleanup = Some 3, tasks = [Fetch 2 1 15, Fetch 4 3 105], fresh = 5,
     fetched = 2\<rparr>"
  by (simp add: race_def api_url_def init_def loop_defs)

text \<open>
  C1. \<open>runLoop\<close> does not read \<open>cancelled\<close> after \<open>await captureFrame()\<close>. When the scan
  is stopped while a frame is being encoded, the stopped closure still sends its
  request, which \<open>abortRef\<close> did not hold at the teardown, so it is in flight while the
  component is idle. When the scan is started again before that request settles, two
  requests are in flight, and the answer to the older one can arrive last and replace
  the newer batch. The run \<open>race\<close> does so.
\<close>

theorem single_flight_race:
  "outstanding (tasks (run api_url cam_hd race init)) = [2, 4]
   \<and> isScanning (ui (run api_url cam_hd (take 3 race) init)) = False
   \<and> outstanding (tasks (run api_url cam_hd (take 3 race) init)) = []
   \<and> isScanning (ui (run api_url cam_hd (take 4 race) init)) = False
   \<and> outstanding (tasks (run api_url cam_hd (take 4 race) init)) = [2]
   \<and> matches (ui (run api_url cam_hd
        (race @ [(300, Settle 4 (Fulfilled 200 (Inr newer))),
                 (400, Settle 2 (Fulfilled 200 (Inr older)))]) init))
      = [JObj [(''id'', JStr ''older'')]]"
  by (simp add: race_def api_url_def init_def loop_defs newer_def older_def ok_def
      detections_def opt_prop_def Array_isArray_def)

text \<open>
  C8. The same defect reaches the stop transition. After the run \<open>race\<close> the component
  is scanning with the requests 2 and 4 in flight and \<open>abortRef\<close> holds 4. The click
  that stops the scan empties both refs, resets \<open>isProcessing\<close> and aborts request 4,
  and request 2 stays in flight: its answer sets \<open>matches\<close> while the component is
  idle.
\<close>

theorem stop_leaves_stale_request:
  "isScanning (ui (run api_url cam_hd race init))
   \<and> outstanding (tasks (run api_url cam_hd race init)) = [2, 4]
   \<and> abortRef (run api_url cam_hd race init) = Some 4
   \<and> \<not> isScanning (ui (step api_url cam_hd 200 Click (run api_url cam_hd race init)))
   \<and> \<not> isProcessing (ui (step api_url cam_hd 200 Click (run api_url cam_hd race init)))
   \<and> loopRef (step api_url cam_hd 200 Click (run api_url cam_hd race init)) = None
   \<and> abortRef (step api_url cam_hd 200 Click (run api_url cam_hd race init)) = None
   \<and> outstanding (tasks (step api_url cam_hd 200 Click (run api_url cam_hd race init))) = [2]
   \<and> matches (ui (step api_url cam_hd 400 (Settle 2 (Fulfilled 200 (Inr older)))
                    (step api_url cam_hd 200 Click (run api_url cam_hd race init))))
       = [JObj [(''id'', JStr ''older'')]]
   \<and> \<not> isScanning (ui (step api_url cam_hd 400 (Settle 2 (Fulfilled 200 (Inr older)))
                    (step api_url cam_hd 200 Click (run api_url cam_hd race init))))"
  unfolding race_state
  by (simp add: api_url_def loop_defs older_def ok_def detections_def opt_prop_def
      Array_isArray_def)

end
